theory Spec2Isabelle
  imports Main
begin

section \<open>Python string primitives\<close>

text \<open>
  Strings are lists of bytes; the model covers ASCII text. The functions below are the
  Python \<open>str\<close> methods that \<open>excel_postman_generator.py\<close> calls.
\<close>

definition is_space :: "char \<Rightarrow> bool" where
  "is_space c = (c \<in> set [CHR '' '', CHR 0x09, CHR 0x0A, CHR 0x0B, CHR 0x0C, CHR 0x0D,
                           CHR 0x1C, CHR 0x1D, CHR 0x1E, CHR 0x1F])"

definition lstrip_chars :: "(char \<Rightarrow> bool) \<Rightarrow> string \<Rightarrow> string" where
  "lstrip_chars P s = dropWhile P s"

definition rstrip_chars :: "(char \<Rightarrow> bool) \<Rightarrow> string \<Rightarrow> string" where
  "rstrip_chars P s = rev (dropWhile P (rev s))"

definition strip :: "string \<Rightarrow> string" where
  \<comment> \<open>\<open>s.strip()\<close>\<close>
  "strip s = lstrip_chars is_space (rstrip_chars is_space s)"

definition lstrip_slash :: "string \<Rightarrow> string" where
  \<comment> \<open>\<open>s.lstrip("/")\<close>\<close>
  "lstrip_slash s = lstrip_chars (\<lambda>c. c = CHR ''/'') s"

definition rstrip_slash :: "string \<Rightarrow> string" where
  \<comment> \<open>\<open>s.rstrip("/")\<close>\<close>
  "rstrip_slash s = rstrip_chars (\<lambda>c. c = CHR ''/'') s"

definition lower_char :: "char \<Rightarrow> char" where
  "lower_char c =
     (case map_of (zip ''ABCDEFGHIJKLMNOPQRSTUVWXYZ'' ''abcdefghijklmnopqrstuvwxyz'') c of
        Some d \<Rightarrow> d | None \<Rightarrow> c)"

definition upper_char :: "char \<Rightarrow> char" where
  "upper_char c =
     (case map_of (zip ''abcdefghijklmnopqrstuvwxyz'' ''ABCDEFGHIJKLMNOPQRSTUVWXYZ'') c of
        Some d \<Rightarrow> d | None \<Rightarrow> c)"

definition lower :: "string \<Rightarrow> string" where
  "lower s = map lower_char s"

definition upper :: "string \<Rightarrow> string" where
  "upper s = map upper_char s"

definition startswith :: "string \<Rightarrow> string \<Rightarrow> bool" where
  \<comment> \<open>\<open>s.startswith(p)\<close>\<close>
  "startswith s p = (take (length p) s = p)"

fun split_on :: "char \<Rightarrow> string \<Rightarrow> string list" where
  \<comment> \<open>\<open>s.split(d)\<close> for a one-character separator: always at least one piece\<close>
  "split_on d [] = [[]]"
| "split_on d (c # cs) =
     (if c = d then [] # split_on d cs
      else (case split_on d cs of p # ps \<Rightarrow> (c # p) # ps | [] \<Rightarrow> [[c]]))"

definition split1 :: "char \<Rightarrow> string \<Rightarrow> string \<times> string" where
  \<comment> \<open>\<open>k, v = s.split(d, 1)\<close>, called only when \<open>d in s\<close>\<close>
  "split1 d s = (takeWhile (\<lambda>c. c \<noteq> d) s, drop 1 (dropWhile (\<lambda>c. c \<noteq> d) s))"

function replace :: "string \<Rightarrow> string \<Rightarrow> string \<Rightarrow> string" where
  \<comment> \<open>\<open>s.replace(old, new)\<close>: leftmost non-overlapping occurrences\<close>
  "replace old new s =
     (if old = [] then new @ concat (map (\<lambda>c. c # new) s)
      else if s = [] then []
      else if take (length old) s = old then new @ replace old new (drop (length old) s)
      else hd s # replace old new (tl s))"
  by pat_completeness auto
termination
  by (relation "measure (\<lambda>(old, new, s). length s)") auto

declare replace.simps [simp del]

function str_nat :: "nat \<Rightarrow> string" where
  "str_nat n =
     (if n < 10 then [''0123456789'' ! n]
      else str_nat (n div 10) @ [''0123456789'' ! (n mod 10)])"
  by pat_completeness auto
termination
  by (relation "measure id") auto

declare str_nat.simps [simp del]

definition str_int :: "int \<Rightarrow> string" where
  \<comment> \<open>\<open>str(i)\<close> for an \<open>int\<close>\<close>
  "str_int i = (if i < 0 then CHR ''-'' # str_nat (nat (- i)) else str_nat (nat i))"


section \<open>Workbook, sheets and cells\<close>

text \<open>
  A cell value as \<open>openpyxl\<close> hands it to the program: \<open>None\<close>, a \<open>str\<close>, or a value
  of another type (int, float, bool, datetime). The program only ever tests such a value
  for truth and renders it with \<open>str()\<close>, so it is given by those two things.
\<close>

datatype cell_value = CNone | CStr string | COther bool string

datatype fill = GREEN | RED

record cell =
  cvalue :: cell_value
  cfill :: "fill option"

definition empty_cell :: cell where
  "empty_cell = \<lparr>cvalue = CNone, cfill = None\<rparr>"

type_synonym grid = "cell list list"

record sheet =
  title :: string
  visible :: bool
  cells :: grid

type_synonym workbook = "sheet list"

definition py_str :: "cell_value \<Rightarrow> string" where
  \<comment> \<open>\<open>str(v)\<close>\<close>
  "py_str v = (case v of CNone \<Rightarrow> ''None'' | CStr s \<Rightarrow> s | COther b s \<Rightarrow> s)"

definition truthy :: "cell_value \<Rightarrow> bool" where
  "truthy v = (case v of CNone \<Rightarrow> False | CStr s \<Rightarrow> s \<noteq> [] | COther b s \<Rightarrow> b)"

definition not_blank :: "cell_value \<Rightarrow> bool" where
  \<comment> \<open>\<open>v not in (None, "")\<close>\<close>
  "not_blank v = (v \<noteq> CNone \<and> v \<noteq> CStr [])"

definition norm :: "cell_value \<Rightarrow> string" where
  \<comment> \<open>\<open>_norm\<close>\<close>
  "norm v = (case v of CNone \<Rightarrow> [] | _ \<Rightarrow> lower (strip (py_str v)))"

definition int_value :: "int \<Rightarrow> cell_value" where
  "int_value i = COther (i \<noteq> 0) (str_int i)"

subsection \<open>The worksheet operations the program uses\<close>

text \<open>
  Rows and columns are numbered from 1. A cell that was never stored reads as an empty
  cell; \<open>max_row\<close> and \<open>max_column\<close> are 1 on a sheet without cells. The program calls
  \<open>sheet.cell\<close> and \<open>insert_cols\<close> only with indices of at least 1.
\<close>

definition max_row :: "grid \<Rightarrow> nat" where
  "max_row g = max 1 (length g)"

definition max_column :: "grid \<Rightarrow> nat" where
  "max_column g = foldr (\<lambda>row m. max (length row) m) g 1"

definition cell_at :: "grid \<Rightarrow> nat \<Rightarrow> nat \<Rightarrow> cell" where
  "cell_at g r c =
     (if 1 \<le> r \<and> r \<le> length g \<and> 1 \<le> c \<and> c \<le> length (g ! (r - 1))
      then g ! (r - 1) ! (c - 1) else empty_cell)"

definition row_at :: "grid \<Rightarrow> nat \<Rightarrow> cell list" where
  "row_at g r = (if 1 \<le> r \<and> r \<le> length g then g ! (r - 1) else [])"

definition in_row :: "cell list \<Rightarrow> nat \<Rightarrow> cell" where
  "in_row row c = (if 1 \<le> c \<and> c \<le> length row then row ! (c - 1) else empty_cell)"

definition pad_to :: "nat \<Rightarrow> 'a \<Rightarrow> 'a list \<Rightarrow> 'a list" where
  "pad_to n x xs = xs @ replicate (n - length xs) x"

definition update_cell :: "grid \<Rightarrow> nat \<Rightarrow> nat \<Rightarrow> (cell \<Rightarrow> cell) \<Rightarrow> grid" where
  \<comment> \<open>\<open>sheet.cell(row=r, column=c)\<close> creates the cell when it is absent, then \<open>f\<close> assigns\<close>
  "update_cell g r c f =
     (let g1 = pad_to r [] g;
          row = pad_to c empty_cell (g1 ! (r - 1))
      in g1[r - 1 := row[c - 1 := f (row ! (c - 1))]])"

definition set_value :: "grid \<Rightarrow> nat \<Rightarrow> nat \<Rightarrow> cell_value \<Rightarrow> grid" where
  \<comment> \<open>\<open>sheet.cell(row=r, column=c).value = v\<close>\<close>
  "set_value g r c v = update_cell g r c (\<lambda>x. x\<lparr>cvalue := v\<rparr>)"

definition insert_cols :: "grid \<Rightarrow> nat \<Rightarrow> nat \<Rightarrow> grid" where
  \<comment> \<open>\<open>sheet.insert_cols(idx, amount)\<close>: every cell in a column \<open>\<ge> idx\<close> moves right\<close>
  "insert_cols g idx amount =
     map (\<lambda>row. if idx - 1 < length row
                then take (idx - 1) row @ replicate amount empty_cell @ drop (idx - 1) row
                else row) g"

definition header_values :: "grid \<Rightarrow> cell_value list" where
  \<comment> \<open>\<open>[c.value for c in next(sheet.iter_rows(min_row=1, max_row=1))]\<close>\<close>
  "header_values g = map (\<lambda>c. cvalue (cell_at g 1 c)) [1..<max_column g + 1]"

definition row_values :: "grid \<Rightarrow> nat \<Rightarrow> cell_value list" where
  \<comment> \<open>the values of one row of \<open>sheet.iter_rows\<close>\<close>
  "row_values g r = map (\<lambda>c. cvalue (cell_at g r c)) [1..<max_column g + 1]"


section \<open>Execution records of the runner\<close>

record assertion_outcome =
  assertion :: string
  error :: "string option"

record execution =
  item_name :: "string option"
  response_code :: "int option"
  assertions :: "assertion_outcome list"

fun result_of :: "assertion_outcome list \<Rightarrow> string" where
  \<comment> \<open>lines 581-585: the first assertion with an error decides\<close>
  "result_of [] = ''PASSED''"
| "result_of (a # as) = (if error a \<noteq> None then ''FAILED'' else result_of as)"

definition actual_status :: "execution \<Rightarrow> cell_value" where
  \<comment> \<open>\<open>exec_item.get("response", {}).get("code")\<close>\<close>
  "actual_status e = (case response_code e of None \<Rightarrow> CNone | Some n \<Rightarrow> int_value n)"

definition status_fill :: "string \<Rightarrow> fill" where
  \<comment> \<open>\<open>GREEN if result == "PASSED" else RED\<close>\<close>
  "status_fill result = (if result = ''PASSED'' then GREEN else RED)"

definition write_result :: "grid \<Rightarrow> nat \<Rightarrow> nat \<Rightarrow> nat \<Rightarrow> execution \<Rightarrow> grid" where
  \<comment> \<open>lines 580-590\<close>
  "write_result g row_num actual_idx status_idx e =
     (let result = result_of (assertions e);
          g1 = set_value g row_num actual_idx (actual_status e)
      in update_cell g1 row_num status_idx
           (\<lambda>x. x\<lparr>cvalue := CStr result, cfill := Some (status_fill result)\<rparr>))"



section \<open>The results reconciler (lines 494-602)\<close>

definition SYNONYMS_expected_status :: "string list" where
  "SYNONYMS_expected_status =
     [''expectedstatus'', ''expected_status'', ''status'', ''expected'', ''expectedcode'', ''code'']"

definition SYNONYMS_id :: "string list" where
  "SYNONYMS_id = [''id'', ''testcaseid'', ''testcase_id'', ''test_id'', ''tcid'']"

fun index_of :: "'a \<Rightarrow> 'a list \<Rightarrow> nat" where
  \<comment> \<open>\<open>xs.index(x)\<close>, called only when \<open>x in xs\<close>\<close>
  "index_of x [] = 0"
| "index_of x (y # ys) = (if y = x then 0 else Suc (index_of x ys))"

fun find_synonym :: "string list \<Rightarrow> string list \<Rightarrow> nat option" where
  \<comment> \<open>lines 512-523: the 1-based column of the first synonym found among the normalised headers\<close>
  "find_synonym [] headers_norm = None"
| "find_synonym (syn # syns) headers_norm =
     (if norm (CStr syn) \<in> set headers_norm
      then Some (index_of (norm (CStr syn)) headers_norm + 1)
      else find_synonym syns headers_norm)"

fun first_match :: "string \<Rightarrow> cell_value list \<Rightarrow> nat \<Rightarrow> nat option" where
  \<comment> \<open>the loop of \<open>find_col\<close> over \<open>enumerate(first_row, start=col_idx)\<close>\<close>
  "first_match name [] col_idx = None"
| "first_match name (v # vs) col_idx =
     (if v = CStr name then Some col_idx else first_match name vs (Suc col_idx))"

definition find_col :: "grid \<Rightarrow> string \<Rightarrow> nat option" where
  "find_col g name = first_match name (header_values g) 1"

definition label_column :: "grid \<Rightarrow> nat \<Rightarrow> string \<Rightarrow> grid" where
  \<comment> \<open>\<open>sheet.cell(row=1, column=c).value = name\<close>\<close>
  "label_column g c name = set_value g 1 c (CStr name)"

definition place_columns :: "grid \<Rightarrow> nat option \<Rightarrow> grid \<times> nat \<times> nat" where
  \<comment> \<open>lines 536-569; the result is the sheet with \<open>actual_idx\<close> and \<open>status_idx\<close>\<close>
  "place_columns g expected_idx =
     (let actual_idx = find_col g ''ActualStatus'';
          status_idx = find_col g ''Status''
      in case expected_idx of
           Some e \<Rightarrow>
             (case (actual_idx, status_idx) of
                (None, None) \<Rightarrow>
                  (let g1 = insert_cols g (e + 1) 2;
                       g2 = label_column g1 (e + 1) ''ActualStatus'';
                       g3 = label_column g2 (e + 2) ''Status''
                   in (g3, e + 1, e + 2))
              | (None, Some s0) \<Rightarrow>
                  (let g1 = insert_cols g (e + 1) 1;
                       g2 = label_column g1 (e + 1) ''ActualStatus''
                   in case find_col g2 ''Status'' of
                        Some s \<Rightarrow> (g2, e + 1, s)
                      | None \<Rightarrow>
                          (let g3 = insert_cols g2 (e + 2) 1
                           in (label_column g3 (e + 2) ''Status'', e + 1, e + 2)))
              | (Some a, None) \<Rightarrow>
                  (let insert_at = (if a \<noteq> 0 then a else e) + 1;
                       g1 = insert_cols g insert_at 1
                   in (label_column g1 insert_at ''Status'', a, insert_at))
              | (Some a, Some s) \<Rightarrow> (g, a, s))
         | None \<Rightarrow>
             (let max_col = max_column g;
                  (g1, a, max_col1) =
                     (case actual_idx of
                        None \<Rightarrow> (label_column g (max_col + 1) ''ActualStatus'',
                                 max_col + 1, max_col + 1)
                      | Some a \<Rightarrow> (g, a, max_col))
              in case status_idx of
                   None \<Rightarrow> (label_column g1 (max_col1 + 1) ''Status'', a, max_col1 + 1)
                 | Some s \<Rightarrow> (g1, a, s)))"

definition record_failure :: "grid \<Rightarrow> nat \<Rightarrow> nat option \<Rightarrow> execution \<Rightarrow> string list \<Rightarrow> string list" where
  \<comment> \<open>lines 592-602, for a row whose result is \<open>FAILED\<close>\<close>
  "record_failure g row_num id_idx e failed =
     (let by_name = (case item_name e of
                       Some n \<Rightarrow> (if n \<noteq> [] then failed @ [n] else failed)
                     | None \<Rightarrow> failed)
      in case id_idx of
           Some i \<Rightarrow>
             (let id_val = cvalue (cell_at g row_num i)
              in if not_blank id_val then failed @ [py_str id_val] else by_name)
         | None \<Rightarrow> by_name)"

text \<open>
  The state of the write-back loop: the sheet, the shared iterator over the executions, the
  failed identifiers, and the rows that were written so far (each entry is added where the
  two result cells of that row are assigned, and nowhere else).
\<close>

record loop_state =
  ls_grid :: grid
  exec_iter :: "execution list"
  failed_test_case_ids :: "string list"
  written :: "((string \<times> nat) \<times> execution) list"

fun write_rows ::
  "string \<Rightarrow> (string \<times> nat) list \<Rightarrow> nat \<Rightarrow> nat \<Rightarrow> nat option \<Rightarrow> nat list \<Rightarrow> loop_state \<Rightarrow> loop_state"
where
  \<comment> \<open>lines 572-602; \<open>break\<close> on an exhausted iterator leaves the rest of the sheet alone\<close>
  "write_rows t row_links actual_idx status_idx id_idx [] st = st"
| "write_rows t row_links actual_idx status_idx id_idx (row_num # rest) st =
     (if (t, row_num) \<notin> set row_links
      then write_rows t row_links actual_idx status_idx id_idx rest st
      else case exec_iter st of
             [] \<Rightarrow> st
           | e # es \<Rightarrow>
               (let g = write_result (ls_grid st) row_num actual_idx status_idx e;
                    failed = (if result_of (assertions e) = ''FAILED''
                              then record_failure g row_num id_idx e (failed_test_case_ids st)
                              else failed_test_case_ids st)
                in write_rows t row_links actual_idx status_idx id_idx rest
                     \<lparr>ls_grid = g, exec_iter = es, failed_test_case_ids = failed,
                      written = written st @ [((t, row_num), e)]\<rparr>))"

record reconcile_state =
  done_sheets :: "sheet list"
  rs_exec_iter :: "execution list"
  rs_failed :: "string list"
  rs_written :: "((string \<times> nat) \<times> execution) list"

definition expected_column :: "grid \<Rightarrow> nat option" where
  \<comment> \<open>lines 508-516: \<open>expected_idx\<close>, found before any column is inserted\<close>
  "expected_column g = find_synonym SYNONYMS_expected_status (map norm (header_values g))"

definition id_column :: "grid \<Rightarrow> nat option" where
  \<comment> \<open>lines 518-523: \<open>id_idx\<close>, found before any column is inserted\<close>
  "id_column g = find_synonym SYNONYMS_id (map norm (header_values g))"

definition reconcile_sheet ::
  "(string \<times> nat) list \<Rightarrow> sheet \<Rightarrow> reconcile_state \<Rightarrow> reconcile_state" where
  \<comment> \<open>one turn of the loop of line 501\<close>
  "reconcile_sheet row_links sh st =
     (if \<not> visible sh then st\<lparr>done_sheets := done_sheets st @ [sh]\<rparr>
      else
        let expected_idx = expected_column (cells sh);
            id_idx = id_column (cells sh);
            (g, actual_idx, status_idx) = place_columns (cells sh) expected_idx;
            st' = write_rows (title sh) row_links actual_idx status_idx id_idx
                    [2..<max_row g + 1]
                    \<lparr>ls_grid = g, exec_iter = rs_exec_iter st,
                     failed_test_case_ids = rs_failed st, written = rs_written st\<rparr>
        in \<lparr>done_sheets = done_sheets st @ [sh\<lparr>cells := ls_grid st'\<rparr>],
            rs_exec_iter = exec_iter st', rs_failed = failed_test_case_ids st',
            rs_written = written st'\<rparr>)"

definition reconcile ::
  "workbook \<Rightarrow> (string \<times> nat) list \<Rightarrow> execution list \<Rightarrow> reconcile_state" where
  "reconcile wb row_links executions =
     foldl (\<lambda>st sh. reconcile_sheet row_links sh st)
       \<lparr>done_sheets = [], rs_exec_iter = executions, rs_failed = [], rs_written = []\<rparr> wb"

definition sheet_links :: "(string \<times> nat) list \<Rightarrow> sheet \<Rightarrow> (string \<times> nat) list" where
  \<comment> \<open>the linked rows of one sheet, in row order\<close>
  "sheet_links row_links sh =
     filter (\<lambda>p. p \<in> set row_links) (map (Pair (title sh)) [2..<max_row (cells sh) + 1])"

definition placed :: "sheet \<Rightarrow> grid \<times> nat \<times> nat" where
  \<comment> \<open>a sheet after its result columns are resolved, before any row is written\<close>
  "placed sh = place_columns (cells sh) (expected_column (cells sh))"

definition linked_rows :: "workbook \<Rightarrow> (string \<times> nat) list \<Rightarrow> (string \<times> nat) list" where
  \<comment> \<open>the linked rows in the order in which the reconciler meets them\<close>
  "linked_rows wb row_links = concat (map (sheet_links row_links) (filter visible wb))"

section \<open>Python dictionaries\<close>

text \<open>
  A \<open>dict\<close> keeps its keys in insertion order: assigning to a key that is present replaces
  the value where the key stands, assigning to a new key appends it.
\<close>

type_synonym ('k, 'v) pydict = "('k \<times> 'v) list"

fun dict_set :: "'k \<Rightarrow> 'v \<Rightarrow> ('k, 'v) pydict \<Rightarrow> ('k, 'v) pydict" where
  \<comment> \<open>\<open>d[k] = v\<close>\<close>
  "dict_set k v [] = [(k, v)]"
| "dict_set k v ((k', v') # d) = (if k' = k then (k', v) # d else (k', v') # dict_set k v d)"

definition dict_update :: "('k, 'v) pydict \<Rightarrow> ('k \<times> 'v) list \<Rightarrow> ('k, 'v) pydict" where
  \<comment> \<open>\<open>d.update(other)\<close>, also \<open>{k: v for k, v in pairs}\<close> from the empty dict\<close>
  "dict_update d pairs = foldl (\<lambda>acc (k, v). dict_set k v acc) d pairs"

definition dict_of :: "('k \<times> 'v) list \<Rightarrow> ('k, 'v) pydict" where
  "dict_of pairs = dict_update [] pairs"

definition dict_get :: "('k, 'v) pydict \<Rightarrow> 'k \<Rightarrow> 'v option" where
  \<comment> \<open>\<open>d.get(k)\<close>\<close>
  "dict_get d k = map_of d k"


section \<open>Parsed JSON and loosely formatted key/value text\<close>

text \<open>
  \<open>json.loads\<close> is a parameter of the model. Of a parsed value the program uses its
  \<open>str()\<close> text, its \<open>json.dumps\<close> text, and, when it is a \<open>dict\<close>, its items.
\<close>

datatype json = Json (jstr: string) (jdumps: string) (jitems: "(string \<times> json) list option")

type_synonym json_loads = "string \<Rightarrow> json option"

definition contains_char :: "char \<Rightarrow> string \<Rightarrow> bool" where
  \<comment> \<open>\<open>d in s\<close> for a one-character \<open>d\<close>\<close>
  "contains_char d s = (d \<in> set s)"

definition kv_pairs :: "char \<Rightarrow> string list \<Rightarrow> (string \<times> string) list" where
  \<comment> \<open>\<open>k, v = part.split(sep, 1)\<close> for the parts that contain \<open>sep\<close>, both stripped\<close>
  "kv_pairs sep parts =
     map (\<lambda>p. (strip (fst (split1 sep p)), strip (snd (split1 sep p))))
         (filter (contains_char sep) parts)"

definition split_parts :: "string \<Rightarrow> string list" where
  \<comment> \<open>lines 65-69\<close>
  "split_parts s =
     foldl (\<lambda>parts d. if contains_char d s then concat (map (split_on d) parts) else parts)
           [s] [CHR '';'', CHR 0x0A, CHR '','']"

definition parse_kv_str :: "json_loads \<Rightarrow> string \<Rightarrow> (string, string) pydict" where
  \<comment> \<open>\<open>_parse_kv_text\<close> from line 49 on, values rendered with \<open>str()\<close>\<close>
  "parse_kv_str loads text =
     (let s = strip text in
      if s = [] then []
      else case (case loads s of Some j \<Rightarrow> jitems j | None \<Rightarrow> None) of
             Some items \<Rightarrow> dict_of (map (\<lambda>(k, v). (k, jstr v)) items)
           | None \<Rightarrow>
               if contains_char CHR ''&'' s \<and> contains_char CHR ''='' s
               then dict_of (kv_pairs CHR ''='' (split_on CHR ''&'' s))
               else dict_of (kv_pairs CHR '':'' (split_parts s)))"

definition parse_kv_text :: "json_loads \<Rightarrow> cell_value \<Rightarrow> (string, string) pydict" where
  \<comment> \<open>\<open>_parse_kv_text\<close>\<close>
  "parse_kv_text loads text = (if \<not> truthy text then [] else parse_kv_str loads (py_str text))"

definition parse_path_params :: "json_loads \<Rightarrow> cell_value \<Rightarrow> (string, string) pydict" where
  \<comment> \<open>lines 375-382: a JSON value that is not a dict gives no parameters\<close>
  "parse_path_params loads raw =
     (if \<not> truthy raw then []
      else case loads (py_str raw) of
             Some j \<Rightarrow> (case jitems j of
                          Some items \<Rightarrow> dict_of (map (\<lambda>(k, v). (k, jstr v)) items)
                        | None \<Rightarrow> [])
           | None \<Rightarrow> parse_kv_text loads raw)"

definition substitute_path_params :: "string \<Rightarrow> (string, string) pydict \<Rightarrow> string" where
  \<comment> \<open>lines 383-384\<close>
  "substitute_path_params url params =
     foldl (\<lambda>u (k, v). replace (''{'' @ k @ ''}'') v u) url params"


section \<open>Query strings\<close>

text \<open>
  \<open>urllib.parse\<close>: \<open>parse_qsl\<close> with its defaults (pairs without \<open>=\<close> or with an empty
  value are dropped, percent-escapes are decoded as UTF-8 and ill-formed bytes replaced by
  U+FFFD), \<open>urlencode\<close> of a dict of strings, and the query component that \<open>urlparse\<close>
  finds. Characters outside ASCII that unquoting produces are kept as the bytes of their
  UTF-8 encoding.
\<close>

definition hex_value :: "char \<Rightarrow> nat option" where
  "hex_value c =
     (if c \<in> set ''0123456789abcdefABCDEF''
      then Some (index_of (lower_char c) ''0123456789abcdef'') else None)"

fun unquote_to_bytes :: "string \<Rightarrow> string" where
  \<comment> \<open>every \<open>%\<close> that two hexadecimal digits follow becomes the byte they name\<close>
  "unquote_to_bytes (c # h # l # rest) =
     (if c = CHR ''%'' then
        (case (hex_value h, hex_value l) of
           (Some a, Some b) \<Rightarrow> char_of (a * 16 + b) # unquote_to_bytes rest
         | _ \<Rightarrow> c # unquote_to_bytes (h # l # rest))
      else c # unquote_to_bytes (h # l # rest))"
| "unquote_to_bytes s = s"

definition continuation_byte :: "nat \<Rightarrow> bool" where
  "continuation_byte b = (0x80 \<le> b \<and> b < 0xC0)"

fun utf8_unit :: "nat list \<Rightarrow> bool \<times> nat" where
  \<comment> \<open>what the UTF-8 decoder of CPython reads at the head of a byte string: whether it is
      a well-formed sequence, and how many bytes after the first one belong to it. An
      ill-formed unit ends before the first byte that cannot continue the sequence, or at
      the end of the data\<close>
  "utf8_unit [] = (True, 0)"
| "utf8_unit (b0 # rest) =
     (if b0 < 0x80 then (True, 0)
      else if b0 < 0xC2 then (False, 0)
      else if b0 < 0xE0 then
        (case rest of
           [] \<Rightarrow> (False, 0)
         | b1 # rest1 \<Rightarrow> if continuation_byte b1 then (True, 1) else (False, 0))
      else if b0 < 0xF0 then
        (case rest of
           [] \<Rightarrow> (False, 0)
         | b1 # rest1 \<Rightarrow>
             if \<not> continuation_byte b1 \<or> (if b1 < 0xA0 then b0 = 0xE0 else b0 = 0xED)
             then (False, 0)
             else (case rest1 of
                     [] \<Rightarrow> (False, 1)
                   | b2 # rest2 \<Rightarrow> if continuation_byte b2 then (True, 2) else (False, 1)))
      else if b0 < 0xF5 then
        (case rest of
           [] \<Rightarrow> (False, 0)
         | b1 # rest1 \<Rightarrow>
             if \<not> continuation_byte b1 \<or> (if b1 < 0x90 then b0 = 0xF0 else b0 = 0xF4)
             then (False, 0)
             else (case rest1 of
                     [] \<Rightarrow> (False, 1)
                   | b2 # rest2 \<Rightarrow>
                       if \<not> continuation_byte b2 then (False, 1)
                       else (case rest2 of
                               [] \<Rightarrow> (False, 2)
                             | b3 # rest3 \<Rightarrow>
                                 if continuation_byte b3 then (True, 3) else (False, 2))))
      else (False, 0))"

definition replacement_character :: string where
  \<comment> \<open>U+FFFD in UTF-8\<close>
  "replacement_character = [CHR 0xEF, CHR 0xBF, CHR 0xBD]"

function utf8_replace :: "string \<Rightarrow> string" where
  \<comment> \<open>\<open>bytes.decode('utf-8', 'replace')\<close>, the result written in UTF-8 again\<close>
  "utf8_replace [] = []"
| "utf8_replace (c # rest) =
     (case utf8_unit (map of_char (c # rest)) of
        (well_formed, k) \<Rightarrow>
          (if well_formed then c # take k rest else replacement_character)
          @ utf8_replace (drop k rest))"
  by pat_completeness auto
termination
  by (relation "measure length") auto

definition ascii_char :: "char \<Rightarrow> bool" where
  "ascii_char c = ((of_char c :: nat) < 0x80)"

fun unquote_runs :: "string \<Rightarrow> string \<Rightarrow> string" where
  \<comment> \<open>the loop of \<open>unquote\<close>: each maximal run of ASCII characters is unquoted to bytes and
      decoded, the characters between the runs are kept\<close>
  "unquote_runs run [] = utf8_replace (unquote_to_bytes run)"
| "unquote_runs run (c # rest) =
     (if ascii_char c then unquote_runs (run @ [c]) rest
      else utf8_replace (unquote_to_bytes run) @ c # unquote_runs [] rest)"

definition unquote :: "string \<Rightarrow> string" where
  \<comment> \<open>\<open>urllib.parse.unquote\<close> with its defaults \<open>encoding='utf-8', errors='replace'\<close>\<close>
  "unquote s = unquote_runs [] s"

definition always_safe :: "char \<Rightarrow> bool" where
  "always_safe c =
     (c \<in> set ''ABCDEFGHIJKLMNOPQRSTUVWXYZabcdefghijklmnopqrstuvwxyz0123456789_.-~'')"

definition quote_plus_char :: "char \<Rightarrow> string" where
  "quote_plus_char c =
     (if always_safe c then [c]
      else if c = CHR '' '' then ''+''
      else [CHR ''%'', ''0123456789ABCDEF'' ! (of_char c div 16),
            ''0123456789ABCDEF'' ! (of_char c mod 16)])"

definition quote_plus :: "string \<Rightarrow> string" where
  "quote_plus s = concat (map quote_plus_char s)"

definition plus_to_space :: "string \<Rightarrow> string" where
  \<comment> \<open>\<open>s.replace('+', ' ')\<close>\<close>
  "plus_to_space s = map (\<lambda>c. if c = CHR ''+'' then CHR '' '' else c) s"

definition parse_qsl :: "string \<Rightarrow> (string \<times> string) list" where
  "parse_qsl qs =
     map (\<lambda>nv. (unquote (plus_to_space (fst (split1 CHR ''='' nv))),
                unquote (plus_to_space (snd (split1 CHR ''='' nv)))))
         (filter (\<lambda>nv. contains_char CHR ''='' nv \<and> snd (split1 CHR ''='' nv) \<noteq> [])
                 (if qs = [] then [] else split_on CHR ''&'' qs))"

fun join_with :: "string \<Rightarrow> string list \<Rightarrow> string" where
  \<comment> \<open>\<open>sep.join(parts)\<close>\<close>
  "join_with sep [] = []"
| "join_with sep [p] = p"
| "join_with sep (p # q # ps) = p @ sep @ join_with sep (q # ps)"

definition urlencode :: "(string, string) pydict \<Rightarrow> string" where
  "urlencode d = join_with ''&'' (map (\<lambda>(k, v). quote_plus k @ ''='' @ quote_plus v) d)"

definition url_query :: "string \<Rightarrow> string" where
  \<comment> \<open>\<open>urlparse(url).query\<close> when \<open>urlparse\<close> returns: tabs, carriage returns and line feeds
      are removed from the URL, the fragment is cut off at the first \<open>#\<close>, and the query is
      what follows the first \<open>?\<close> of the rest (the scheme and the network location contain
      neither character)\<close>
  "url_query url =
     (let u = filter (\<lambda>c. c \<notin> set [CHR 0x09, CHR 0x0D, CHR 0x0A]) url
      in drop 1 (dropWhile (\<lambda>c. c \<noteq> CHR ''?'') (takeWhile (\<lambda>c. c \<noteq> CHR ''#'') u)))"

definition merge_query :: "string \<Rightarrow> (string, string) pydict \<Rightarrow> (string, string) pydict" where
  \<comment> \<open>lines 388-389: \<open>combined_query\<close>\<close>
  "merge_query existing_query query_params = dict_update (dict_of (parse_qsl existing_query)) query_params"

definition merged_query_string :: "string \<Rightarrow> (string, string) pydict \<Rightarrow> string" where
  \<comment> \<open>line 391: the query component of the final URL\<close>
  "merged_query_string existing_query query_params = urlencode (merge_query existing_query query_params)"


section \<open>Schema resolution (lines 9-42, 267-283)\<close>

definition SYNONYMS :: "(string \<times> string list) list" where
  "SYNONYMS =
     [(''name'', [''name'', ''testname'', ''case'', ''title'', ''apiname'', ''api name'', ''testcasename'']),
      (''method'', [''method'', ''httpmethod'', ''verb'', ''http method'']),
      (''url'', [''url'', ''fullurl'', ''requesturl'']),
      (''base_url'', [''baseurl'', ''base_url'', ''host'']),
      (''path'', [''path'', ''endpoint'', ''route'', ''uri'']),
      (''headers'', [''headers'', ''requestheaders'']),
      (''payload'', [''payload'', ''body'', ''requestbody'', ''data'']),
      (''expected_status'', [''expectedstatus'', ''expected_status'', ''status'', ''expected'', ''expectedcode'', ''code'']),
      (''path_params'', [''pathparams'', ''path_parameters'', ''path_param'', ''routeparams'']),
      (''query_params'', [''queryparams'', ''query_parameters'', ''query'', ''params'']),
      (''folder'', [''folder'', ''group'', ''suite'', ''collection'', ''module'']),
      (''auth'', [''auth'', ''authorization'', ''token'']),
      (''assertions'', [''expectedresponseassertions'', ''responseassertions'', ''assertions'', ''expected_response_assertions'']),
      (''id'', [''id'', ''testcaseid'', ''testcase_id'', ''test_id'', ''tcid''])]"

definition build_header_map :: "cell_value list \<Rightarrow> (string, nat) pydict" where
  \<comment> \<open>\<open>_build_header_map\<close>: 0-based indices, a repeated header keeps its last index\<close>
  "build_header_map header_cells =
     dict_of (filter (\<lambda>(name, idx). name \<noteq> [])
                (zip (map norm header_cells) [0..<length header_cells]))"

fun first_hit :: "(string, nat) pydict \<Rightarrow> string list \<Rightarrow> nat option" where
  "first_hit header_to_idx [] = None"
| "first_hit header_to_idx (syn # syns) =
     (case dict_get header_to_idx (norm (CStr syn)) of
        Some idx \<Rightarrow> Some idx
      | None \<Rightarrow> first_hit header_to_idx syns)"

definition find_idx :: "(string, nat) pydict \<Rightarrow> string \<Rightarrow> nat option" where
  \<comment> \<open>\<open>_find_idx\<close> with one logical key; \<open>SYNONYMS.get(logical, [logical])\<close>\<close>
  "find_idx header_to_idx logical =
     first_hit header_to_idx
       (case map_of SYNONYMS logical of Some syns \<Rightarrow> syns | None \<Rightarrow> [logical])"

record columns =
  idx_name :: "nat option"
  idx_method :: "nat option"
  idx_url :: "nat option"
  idx_base :: "nat option"
  idx_path :: "nat option"
  idx_expected :: "nat option"
  idx_path_params :: "nat option"
  idx_query_params :: "nat option"
  idx_folder :: "nat option"
  idx_assertions :: "nat option"
  idx_testcase_name :: "nat option"

definition resolve_columns :: "(string, nat) pydict \<Rightarrow> columns" where
  \<comment> \<open>lines 271-283; the header and payload columns are not modelled\<close>
  "resolve_columns h =
     \<lparr>idx_name = find_idx h ''name'', idx_method = find_idx h ''method'',
      idx_url = find_idx h ''url'', idx_base = find_idx h ''base_url'',
      idx_path = find_idx h ''path'', idx_expected = find_idx h ''expected_status'',
      idx_path_params = find_idx h ''path_params'',
      idx_query_params = find_idx h ''query_params'',
      idx_folder = find_idx h ''folder'', idx_assertions = find_idx h ''assertions'',
      idx_testcase_name = find_idx h ''testcasename''\<rparr>"

definition get_cell :: "cell_value list \<Rightarrow> nat option \<Rightarrow> cell_value" where
  \<comment> \<open>\<open>_get_cell\<close>; a row of \<open>iter_rows\<close> is as wide as the header row, so the index is in range\<close>
  "get_cell row idx =
     (case idx of None \<Rightarrow> CNone
      | Some i \<Rightarrow> if i < length row then row ! i else CNone)"


section \<open>Row normalisation (lines 285-365)\<close>

record sticky =
  last_method :: "string option"
  last_path :: "string option"
  last_raw_url :: "string option"
  last_base_url :: "string option"
  last_folder :: cell_value
  last_name :: cell_value

definition initial_sticky :: "string \<Rightarrow> sticky" where
  \<comment> \<open>lines 285-291\<close>
  "initial_sticky default_folder_name =
     \<lparr>last_method = None, last_path = None, last_raw_url = None, last_base_url = None,
      last_folder = CStr default_folder_name, last_name = CNone\<rparr>"

definition py_or :: "cell_value \<Rightarrow> cell_value \<Rightarrow> cell_value" where
  \<comment> \<open>\<open>a or b\<close>\<close>
  "py_or a b = (if truthy a then a else b)"

definition truthy_str :: "string option \<Rightarrow> bool" where
  \<comment> \<open>the truth value of a \<open>str\<close> or \<open>None\<close>\<close>
  "truthy_str s = (case s of None \<Rightarrow> False | Some t \<Rightarrow> t \<noteq> [])"

definition all_blank :: "cell_value list \<Rightarrow> bool" where
  \<comment> \<open>line 294\<close>
  "all_blank row = list_all (\<lambda>v. norm v = []) row"

definition resolve_name :: "cell_value \<Rightarrow> cell_value \<Rightarrow> cell_value \<Rightarrow> cell_value" where
  \<comment> \<open>lines 299-305\<close>
  "resolve_name name_raw testcase_name_raw prev =
     (let name1 = (if not_blank name_raw then name_raw else CNone);
          name2 = (if \<not> truthy name1 \<and> not_blank testcase_name_raw
                   then testcase_name_raw else name1);
          name3 = (if \<not> truthy name2 \<and> not_blank name_raw then name_raw else name2)
      in if \<not> truthy name3
         then py_or testcase_name_raw (py_or prev (CStr ''Unnamed''))
         else name3)"

definition carry :: "cell_value \<Rightarrow> string option \<Rightarrow> string option" where
  \<comment> \<open>lines 316-335: the cell when it is not blank, else the carried value\<close>
  "carry v prev = (if not_blank v then Some (py_str v) else prev)"

definition resolve_method :: "cell_value \<Rightarrow> string option \<Rightarrow> string" where
  \<comment> \<open>lines 308-314\<close>
  "resolve_method method_val prev =
     upper (if not_blank method_val then py_str method_val
            else if truthy_str prev then the prev else ''GET'')"

definition join_url :: "string \<Rightarrow> string \<Rightarrow> string" where
  \<comment> \<open>\<open>base.rstrip("/") + "/" + path.lstrip("/")\<close>\<close>
  "join_url base path = rstrip_slash base @ ''/'' @ lstrip_slash path"

definition resolve_url ::
  "string option \<Rightarrow> string option \<Rightarrow> string option \<Rightarrow> string option \<Rightarrow> string option" where
  \<comment> \<open>lines 341-350\<close>
  "resolve_url base_url_override raw_url_value base_url_value path_value =
     (if truthy_str base_url_override \<and> truthy_str path_value
      then Some (join_url (the base_url_override) (the path_value))
      else if truthy_str raw_url_value \<and> strip (the raw_url_value) \<noteq> []
      then Some (strip (the raw_url_value))
      else if truthy_str base_url_value \<and> truthy_str path_value
      then Some (join_url (the base_url_value) (the path_value))
      else if truthy_str path_value \<and> startswith (lower (the path_value)) ''http''
      then path_value
      else None)"


section \<open>Test scripts (lines 77-83, 93-199, 404-413, 449-458)\<close>

definition digit_value :: "char \<Rightarrow> nat" where
  "digit_value c = index_of c ''0123456789''"

definition is_digit :: "char \<Rightarrow> bool" where
  "is_digit c = (c \<in> set ''0123456789'')"

definition parse_digits :: "string \<Rightarrow> int option" where
  \<comment> \<open>decimal digits, where single underscores may stand between digits\<close>
  "parse_digits s =
     (let groups = split_on CHR ''_'' s in
      if list_all (\<lambda>g. g \<noteq> [] \<and> list_all is_digit g) groups
      then Some (int (foldl (\<lambda>acc c. 10 * acc + digit_value c) 0 (concat groups)))
      else None)"

definition py_int :: "string \<Rightarrow> int option" where
  \<comment> \<open>\<open>int(s)\<close>; \<open>None\<close> stands for \<open>ValueError\<close>\<close>
  "py_int s =
     (case strip s of
        [] \<Rightarrow> None
      | c # cs \<Rightarrow>
          if c = CHR ''-'' then map_option uminus (parse_digits cs)
          else if c = CHR ''+'' then parse_digits cs
          else parse_digits (c # cs))"

definition safe_int :: "cell_value \<Rightarrow> int option" where
  \<comment> \<open>\<open>_safe_int\<close>\<close>
  "safe_int v =
     (if v = CNone \<or> strip (py_str v) = [] then None
      else py_int (hd (split_on CHR ''.'' (strip (py_str v)))))"

definition escape_js_string :: "string \<Rightarrow> string" where
  \<comment> \<open>\<open>_escape_js_string\<close>\<close>
  "escape_js_string v =
     replace [CHR 0x27] [CHR 0x5C, CHR 0x27] (replace [CHR 0x5C] [CHR 0x5C, CHR 0x5C] v)"

definition status_lines :: "int option \<Rightarrow> string list" where
  \<comment> \<open>lines 450-455\<close>
  "status_lines expected_status =
     (case expected_status of
        None \<Rightarrow> []
      | Some n \<Rightarrow>
          [''pm.test('Status code is '' @ str_int n @ ''', function () {'',
           ''    pm.response.to.have.status('' @ str_int n @ '');'',
           ''});''])"

definition valid_json_test :: string where
  "valid_json_test = ''pm.test('Response is valid JSON', function () {''"

definition not_null_line :: string where
  "not_null_line = ''    pm.expect(jsonData, 'Response JSON').to.not.be.null;''"

definition preamble :: "string list" where
  \<comment> \<open>lines 102-112\<close>
  "preamble =
     [''let jsonData = null;'',
      ''try {'',
      ''    jsonData = pm.response.json();'',
      ''} catch (e) {'',
      ''    jsonData = null;'',
      ''}'',
      valid_json_test,
      not_null_line,
      ''});'']"

definition test_block :: "string \<Rightarrow> string \<Rightarrow> string \<Rightarrow> string list" where
  \<comment> \<open>the four lines every operator emits: title, null check, check, close\<close>
  "test_block test_title value_expr check =
     [''pm.test('' @ [CHR 0x27] @ test_title @ ''', function () {'',
      not_null_line,
      ''    pm.expect('' @ value_expr @ '')'' @ check @ '';'',
      ''});'']"

definition operator_lines :: "string \<Rightarrow> string \<Rightarrow> string \<Rightarrow> json \<Rightarrow> string list" where
  \<comment> \<open>lines 120-198\<close>
  "operator_lines field value_expr op expected =
     (let op_lower = lower op; expected_literal = jdumps expected in
      if op_lower \<in> set [''equals'', ''equal'', ''eq'', ''==''] then
        test_block (field @ '' equals '' @ jstr expected) value_expr
          (''.to.eql('' @ expected_literal @ '')'')
      else if op_lower \<in> set [''notequals'', ''not_equals'', ''!='', ''ne''] then
        test_block (field @ '' not equals '' @ jstr expected) value_expr
          (''.to.not.eql('' @ expected_literal @ '')'')
      else if op_lower \<in> set [''notempty'', ''not_empty''] then
        test_block (field @ '' is not empty'') value_expr ''.to.not.be.empty''
      else if op_lower \<in> set [''greaterthanorequal'', ''greater_than_or_equal'', ''gte''] then
        test_block (field @ '' >= '' @ jstr expected) value_expr
          (''.to.be.at.least('' @ expected_literal @ '')'')
      else if op_lower \<in> set [''greaterthan'', ''greater_than'', ''gt''] then
        test_block (field @ '' > '' @ jstr expected) value_expr
          (''.to.be.above('' @ expected_literal @ '')'')
      else if op_lower \<in> set [''lessthanorequal'', ''less_than_or_equal'', ''lte''] then
        test_block (field @ '' <= '' @ jstr expected) value_expr
          (''.to.be.at.most('' @ expected_literal @ '')'')
      else if op_lower \<in> set [''lessthan'', ''less_than'', ''lt''] then
        test_block (field @ '' < '' @ jstr expected) value_expr
          (''.to.be.below('' @ expected_literal @ '')'')
      else if op_lower \<in> set [''contains'', ''includes''] then
        test_block (field @ '' contains '' @ jstr expected) value_expr
          (''.to.include('' @ expected_literal @ '')'')
      else if op_lower \<in> set [''true'', ''istrue''] then
        test_block (field @ '' is true'') value_expr ''.to.be.true''
      else if op_lower \<in> set [''false'', ''isfalse''] then
        test_block (field @ '' is false'') value_expr ''.to.be.false''
      else if op_lower \<in> set [''exists''] then
        test_block (field @ '' exists'') value_expr ''.to.not.be.undefined''
      else [])"

definition field_lines :: "string \<times> json \<Rightarrow> string list" where
  \<comment> \<open>lines 114-119: one turn of the loop over the fields\<close>
  "field_lines fc =
     (case jitems (snd fc) of
        None \<Rightarrow> []
      | Some conditions \<Rightarrow>
          concat (map (\<lambda>(op, expected).
                         operator_lines (fst fc)
                           (''_.get(jsonData, '' @ [CHR 0x27] @ escape_js_string (fst fc) @ ''')'')
                           op expected)
                      conditions))"

definition build_assertion_tests :: "(string \<times> json) list \<Rightarrow> string list" where
  \<comment> \<open>\<open>_build_assertion_tests\<close>\<close>
  "build_assertion_tests assertions_dict = preamble @ concat (map field_lines assertions_dict)"

definition parse_assertions :: "json_loads \<Rightarrow> cell_value \<Rightarrow> (string \<times> json) list" where
  \<comment> \<open>lines 406-413\<close>
  "parse_assertions loads raw =
     (if \<not> truthy raw then []
      else case loads (py_str raw) of
             Some j \<Rightarrow> (case jitems j of Some items \<Rightarrow> items | None \<Rightarrow> [])
           | None \<Rightarrow> [])"

definition script_lines :: "int option \<Rightarrow> (string \<times> json) list \<Rightarrow> string list" where
  \<comment> \<open>lines 449-458\<close>
  "script_lines expected_status assertions_dict =
     status_lines expected_status
     @ (if assertions_dict \<noteq> [] then build_assertion_tests assertions_dict else [])"


section \<open>Compiled requests and the collection (lines 256-478)\<close>

text \<open>
  Of a compiled request the model keeps the display name, the method, the URL after the
  path parameters are substituted (line 384), the merged query pairs (\<open>combined_query\<close>) and
  the lines of the test script. Headers, body and auth metadata are left out.
\<close>

record item =
  req_name :: string
  req_method :: string
  req_url :: string
  req_query :: "(string, string) pydict"
  test_script :: "string list"

record folder =
  folder_name :: string
  folder_items :: "item list"

text \<open>
  \<open>urlparse\<close> raises \<open>ValueError\<close> on a URL whose network location has a malformed
  bracketed host; which hosts it rejects depends on the version of the library. The program
  calls it twice for a row: on the URL (line 387) and on the URL put together again with
  the merged query (line 393). Whether one of the two calls raises is a parameter of the
  model, like \<open>json.loads\<close>: a function of the URL and of the encoded merged query. The
  exception is caught nowhere, so it ends the run.
\<close>

datatype run_error = ValueError | FileNotFoundError

record library =
  lib_json_loads :: json_loads
  lib_urlparse_raises :: "string \<Rightarrow> string \<Rightarrow> bool"

definition process_row ::
  "string option \<Rightarrow> library \<Rightarrow> columns \<Rightarrow> string \<Rightarrow> sticky \<Rightarrow> cell_value list
     \<Rightarrow> run_error + sticky \<times> (cell_value \<times> item) option" where
  \<comment> \<open>lines 294-468: the carried values after the row, and the folder name with the
      compiled request unless the row is skipped or dropped; \<open>ValueError\<close> when \<open>urlparse\<close>
      raises\<close>
  "process_row base_url_override lib cols default_folder_name st row =
     (if all_blank row then Inr (st, None)
      else
        let name = resolve_name (get_cell row (idx_name cols))
                     (get_cell row (idx_testcase_name cols)) (last_name st);
            method_val = get_cell row (idx_method cols);
            method = resolve_method method_val (last_method st);
            raw_url_value = carry (get_cell row (idx_url cols)) (last_raw_url st);
            base_url_value = carry (get_cell row (idx_base cols)) (last_base_url st);
            path_value = carry (get_cell row (idx_path cols)) (last_path st);
            st1 = st\<lparr>last_name := name, last_method := carry method_val (last_method st),
                     last_raw_url := raw_url_value, last_base_url := base_url_value,
                     last_path := path_value\<rparr>
        in case resolve_url base_url_override raw_url_value base_url_value path_value of
             None \<Rightarrow> Inr (st1, None)
           | Some url0 \<Rightarrow>
               if url0 = [] then Inr (st1, None)
               else
                 let folder_candidate = get_cell row (idx_folder cols);
                     folder_name = (if not_blank folder_candidate then folder_candidate
                                    else py_or (last_folder st1) (CStr default_folder_name));
                     st2 = (if not_blank folder_candidate
                            then st1\<lparr>last_folder := folder_candidate\<rparr> else st1);
                     loads = lib_json_loads lib;
                     url = substitute_path_params url0
                             (parse_path_params loads (get_cell row (idx_path_params cols)));
                     query_params = parse_kv_text loads (get_cell row (idx_query_params cols))
                 in if lib_urlparse_raises lib url (merged_query_string (url_query url) query_params)
                    then Inl ValueError
                    else
                      let combined_query = merge_query (url_query url) query_params;
                          expected_status = safe_int (get_cell row (idx_expected cols));
                          assertions_dict = parse_assertions loads (get_cell row (idx_assertions cols))
                      in Inr (st2, Some (folder_name,
                            \<lparr>req_name = py_str name, req_method = method, req_url = url,
                             req_query = combined_query,
                             test_script = script_lines expected_status assertions_dict\<rparr>)))"

definition add_item ::
  "string \<Rightarrow> string \<Rightarrow> item \<Rightarrow> (string, folder) pydict \<Rightarrow> (string, folder) pydict" where
  \<comment> \<open>lines 471-473\<close>
  "add_item folder_key fname it folders =
     (case dict_get folders folder_key of
        None \<Rightarrow> dict_set folder_key \<lparr>folder_name = fname, folder_items = [it]\<rparr> folders
      | Some f \<Rightarrow> dict_set folder_key (f\<lparr>folder_items := folder_items f @ [it]\<rparr>) folders)"

record gen_state =
  folders :: "(string, folder) pydict"
  row_links :: "(string \<times> nat) list"

fun gen_rows ::
  "string option \<Rightarrow> library \<Rightarrow> columns \<Rightarrow> string \<Rightarrow> (nat \<times> cell_value list) list
     \<Rightarrow> sticky \<Rightarrow> gen_state \<Rightarrow> run_error + gen_state" where
  \<comment> \<open>the loop of line 293 with lines 470-475\<close>
  "gen_rows base_url_override lib cols t [] st gs = Inr gs"
| "gen_rows base_url_override lib cols t ((row_num, row) # rest) st gs =
     (case process_row base_url_override lib cols t st row of
        Inl e \<Rightarrow> Inl e
      | Inr (st', None) \<Rightarrow> gen_rows base_url_override lib cols t rest st' gs
      | Inr (st', Some (fname, it)) \<Rightarrow>
          gen_rows base_url_override lib cols t rest st'
            \<lparr>folders = add_item (if norm fname \<noteq> [] then norm fname else norm (CStr t))
                         (py_str (py_or fname (CStr t))) it (folders gs),
             row_links = row_links gs @ [(t, row_num)]\<rparr>)"

definition gen_sheet ::
  "string option \<Rightarrow> library \<Rightarrow> gen_state \<Rightarrow> sheet \<Rightarrow> run_error + gen_state" where
  \<comment> \<open>one turn of the loop of line 259\<close>
  "gen_sheet base_url_override lib gs sh =
     (if \<not> visible sh then Inr gs
      else let header_to_idx = build_header_map (header_values (cells sh)) in
        if header_to_idx = [] then Inr gs
        else gen_rows base_url_override lib (resolve_columns header_to_idx) (title sh)
               (map (\<lambda>r. (r, row_values (cells sh) r)) [2..<max_row (cells sh) + 1])
               (initial_sticky (title sh)) gs)"

fun gen_sheets ::
  "string option \<Rightarrow> library \<Rightarrow> gen_state \<Rightarrow> workbook \<Rightarrow> run_error + gen_state" where
  \<comment> \<open>the loop of line 259\<close>
  "gen_sheets base_url_override lib gs [] = Inr gs"
| "gen_sheets base_url_override lib gs (sh # wb) =
     (case gen_sheet base_url_override lib gs sh of
        Inl e \<Rightarrow> Inl e
      | Inr gs' \<Rightarrow> gen_sheets base_url_override lib gs' wb)"

definition compile_workbook :: "string option \<Rightarrow> library \<Rightarrow> workbook \<Rightarrow> run_error + gen_state" where
  "compile_workbook base_url_override lib wb =
     gen_sheets base_url_override lib \<lparr>folders = [], row_links = []\<rparr> wb"

definition flat_requests :: "(string, folder) pydict \<Rightarrow> item list" where
  \<comment> \<open>\<open>list(folders.values())\<close> read folder by folder: the order in which the runner executes\<close>
  "flat_requests fs = concat (map (\<lambda>(k, f). folder_items f) fs)"


section \<open>The runner and the whole run (newman_runner.py lines 29-43, generator lines 487-610)\<close>

record runner_outcome =
  returncode :: int
  results_json :: "execution list option"

record runner_return =
  report_name :: "string option"
  executions :: "execution list"
  report_written :: bool

definition run_newman_and_generate_report ::
  "runner_outcome \<Rightarrow> string option \<Rightarrow> run_error + runner_return" where
  \<comment> \<open>called with \<open>return_executions=True\<close>; \<open>results_json\<close> is \<open>None\<close> when
      \<open>newman_results.json\<close> does not exist\<close>
  "run_newman_and_generate_report outcome report_excel_name =
     (if returncode outcome \<noteq> 0 \<and> results_json outcome = None
      then Inr \<lparr>report_name = None, executions = [], report_written = False\<rparr>
      else case results_json outcome of
             None \<Rightarrow> Inl FileNotFoundError
           | Some es \<Rightarrow>
               Inr \<lparr>report_name = report_excel_name, executions = es,
                    report_written = truthy_str report_excel_name\<rparr>)"

record run_result =
  collection :: "(string, folder) pydict"
  results_workbook :: workbook
  failed_ids :: "string list"
  rows_written :: "((string \<times> nat) \<times> execution) list"

definition generate_postman_collection_from_excel ::
  "string option \<Rightarrow> library \<Rightarrow> workbook \<Rightarrow> runner_outcome \<Rightarrow> run_error + run_result" where
  \<comment> \<open>\<open>results_workbook\<close> is what \<open>wb.save(output_excel_path)\<close> writes at line 607\<close>
  "generate_postman_collection_from_excel base_url_override lib wb outcome =
     (case compile_workbook base_url_override lib wb of
        Inl e \<Rightarrow> Inl e
      | Inr gs \<Rightarrow>
          (case run_newman_and_generate_report outcome None of
             Inl e \<Rightarrow> Inl e
           | Inr r \<Rightarrow>
               (let rs = reconcile wb (row_links gs) (executions r)
                in Inr \<lparr>collection = folders gs, results_workbook = done_sheets rs,
                        failed_ids = rs_failed rs, rows_written = rs_written rs\<rparr>)))"


section \<open>Example workbooks\<close>

definition text_cell :: "string \<Rightarrow> cell" where
  "text_cell s = \<lparr>cvalue = CStr s, cfill = None\<rparr>"

definition number_cell :: "int \<Rightarrow> cell" where
  "number_cell n = \<lparr>cvalue = int_value n, cfill = None\<rparr>"

definition users_sheet :: sheet where
  "users_sheet = \<lparr>title = ''Users'', visible = True, cells =
     [[text_cell ''Name'', text_cell ''URL'', text_cell ''ExpectedStatus'', text_cell ''ID''],
      [text_cell ''List users'', text_cell ''http://api.test/users'', number_cell 200, text_cell ''TC-1''],
      [text_cell ''Get user'', text_cell ''http://api.test/users/1'', number_cell 200, text_cell ''TC-2'']]\<rparr>"

definition failing_execution :: execution where
  "failing_execution = \<lparr>item_name = Some ''List users'', response_code = Some 500,
      assertions = [\<lparr>assertion = ''Status code is 200'', error = Some ''AssertionError''\<rparr>]\<rparr>"

definition unasserted_execution :: execution where
  \<comment> \<open>what the runner reports for a request whose script has no test\<close>
  "unasserted_execution = \<lparr>item_name = Some ''Get user'', response_code = Some 200, assertions = []\<rparr>"

definition ids_first_sheet :: sheet where
  "ids_first_sheet = \<lparr>title = ''Users'', visible = True, cells =
     [[text_cell ''ID'', text_cell ''Name'', text_cell ''URL'', text_cell ''ExpectedStatus''],
      [text_cell ''TC-1'', text_cell ''List users'', text_cell ''http://api.test/users'', number_cell 200],
      [text_cell ''TC-2'', text_cell ''Get user'', text_cell ''http://api.test/users/1'', number_cell 200]]\<rparr>"

definition header_only :: "string list \<Rightarrow> grid" where
  "header_only names = [map (\<lambda>s. \<lparr>cvalue = CStr s, cfill = None\<rparr>) names]"

definition no_json :: json_loads where
  "no_json s = None"

definition plain_library :: library where
  \<comment> \<open>what the library does on the example sheets without JSON cells: no cell text is
      JSON, and \<open>urlparse\<close> accepts the URLs, which have no bracketed host\<close>
  "plain_library = \<lparr>lib_json_loads = no_json, lib_urlparse_raises = (\<lambda>url query. False)\<rparr>"

definition status_eq_ok :: "(string \<times> json) list" where
  \<comment> \<open>the parsed assertion specification \<open>{"status": {"eq": "ok"}}\<close>\<close>
  "status_eq_ok =
     [(''status'',
       Json ''{'eq': 'ok'}'' (''{'' @ [CHR 0x22] @ ''eq'' @ [CHR 0x22] @ '': '' @ [CHR 0x22] @ ''ok'' @ [CHR 0x22] @ ''}'')
         (Some [(''eq'', Json ''ok'' ([CHR 0x22] @ ''ok'' @ [CHR 0x22]) None)]))]"

definition assertion_loads :: json_loads where
  \<comment> \<open>a \<open>json.loads\<close> that knows one text, written \<open>ASSERT-STATUS-OK\<close> in the examples\<close>
  "assertion_loads s =
     (if s = ''ASSERT-STATUS-OK''
      then Some (Json ''{'status': {'eq': 'ok'}}''
                   (''{'' @ [CHR 0x22] @ ''status'' @ [CHR 0x22] @ '': {'' @ [CHR 0x22] @ ''eq''
                    @ [CHR 0x22] @ '': '' @ [CHR 0x22] @ ''ok'' @ [CHR 0x22] @ ''}}'')
                   (Some status_eq_ok))
      else None)"

definition assertion_library :: library where
  "assertion_library =
     \<lparr>lib_json_loads = assertion_loads, lib_urlparse_raises = (\<lambda>url query. False)\<rparr>"

definition asserting_sheet :: sheet where
  "asserting_sheet = \<lparr>title = ''Health'', visible = True, cells =
     [[text_cell ''Name'', text_cell ''URL'', text_cell ''ExpectedStatus'', text_cell ''Assertions''],
      [text_cell ''ping'', text_cell ''http://api.test/ping'', number_cell 200,
       text_cell ''ASSERT-STATUS-OK'']]\<rparr>"

definition asserting_columns :: columns where
  "asserting_columns = resolve_columns (build_header_map (header_values (cells asserting_sheet)))"

definition interleaved_sheet :: sheet where
  "interleaved_sheet = \<lparr>title = ''Api'', visible = True, cells =
     [[text_cell ''Name'', text_cell ''URL'', text_cell ''Folder'', text_cell ''ExpectedStatus''],
      [text_cell ''create user'', text_cell ''http://api.test/users'', text_cell ''Users'', number_cell 201],
      [text_cell ''list orders'', text_cell ''http://api.test/orders'', text_cell ''Orders'', number_cell 200],
      [text_cell ''delete user'', text_cell ''http://api.test/users/1'', text_cell ''Users'', number_cell 204]]\<rparr>"

definition executions_in_collection_order :: "execution list" where
  \<comment> \<open>what the runner reports for the collection of \<open>interleaved_sheet\<close>: folder by folder\<close>
  "executions_in_collection_order =
     [\<lparr>item_name = Some ''create user'', response_code = Some 201, assertions = []\<rparr>,
      \<lparr>item_name = Some ''delete user'', response_code = Some 204, assertions = []\<rparr>,
      \<lparr>item_name = Some ''list orders'', response_code = Some 200, assertions = []\<rparr>]"

definition repeated_query_sheet :: sheet where
  "repeated_query_sheet = \<lparr>title = ''Items'', visible = True, cells =
     [[text_cell ''Name'', text_cell ''URL'', text_cell ''QueryParams''],
      [text_cell ''List items'', text_cell ''http://api.test/items?flag=&a=1&a=5'',
       text_cell ''b:3'']]\<rparr>"








definition saved_headers :: "run_error + run_result \<Rightarrow> cell_value list list" where
  \<comment> \<open>the header rows of the results workbook that a run saved, none when the run raised\<close>
  "saved_headers res =
     (case res of Inl e \<Rightarrow> [] | Inr r \<Rightarrow> map (\<lambda>sh. header_values (cells sh)) (results_workbook r))"


section \<open>Facts about the worksheet operations\<close>

lemma length_pad_to: "length (pad_to n x xs) = max n (length xs)"
  by (simp add: pad_to_def)

lemma nth_pad_to:
  "i < max n (length xs) \<Longrightarrow> pad_to n x xs ! i = (if i < length xs then xs ! i else x)"
  by (simp add: pad_to_def nth_append)

lemma cell_at_row: "cell_at g r c = in_row (row_at g r) c"
  by (auto simp: cell_at_def row_at_def in_row_def)

lemma in_row_pad: "in_row (pad_to n empty_cell row) c = in_row row c"
  by (auto simp: in_row_def length_pad_to nth_pad_to)

lemma in_row_update:
  "1 \<le> c \<Longrightarrow> c \<le> length row \<Longrightarrow>
     in_row (row[c - 1 := x]) c' = (if c' = c then x else in_row row c')"
  by (cases "c' = 0") (auto simp: in_row_def nth_list_update)

lemma row_at_pad: "row_at (pad_to n [] g) r = row_at g r"
  by (auto simp: row_at_def length_pad_to nth_pad_to)

lemma row_at_update:
  "1 \<le> r \<Longrightarrow> r \<le> length g \<Longrightarrow>
     row_at (g[r - 1 := x]) r' = (if r' = r then x else row_at g r')"
  by (cases "r' = 0") (auto simp: row_at_def nth_list_update)

lemma cell_at_update_cell:
  assumes "1 \<le> r" and "1 \<le> c"
  shows "cell_at (update_cell g r c f) r' c' =
           (if r' = r \<and> c' = c then f (cell_at g r c) else cell_at g r' c')"
proof -
  define g1 where "g1 = pad_to r [] g"
  define row where "row = pad_to c empty_cell (row_at g1 r)"
  have lg1: "r \<le> length g1" by (simp add: g1_def length_pad_to)
  have lrow: "c \<le> length row" by (simp add: row_def length_pad_to)
  have r1: "g1 ! (r - 1) = row_at g1 r" using assms lg1 by (simp add: row_at_def)
  have upd: "update_cell g r c f = g1[r - 1 := row[c - 1 := f (in_row row c)]]"
  proof -
    have "in_row row c = row ! (c - 1)" using assms lrow by (simp add: in_row_def)
    then show ?thesis
      unfolding update_cell_def Let_def g1_def[symmetric] r1 row_def[symmetric] by simp
  qed
  have a: "row_at g1 k = row_at g k" for k by (simp add: g1_def row_at_pad)
  have b: "in_row row k = in_row (row_at g r) k" for k by (simp add: row_def in_row_pad a)
  have ru: "row_at (g1[r - 1 := X]) k = (if k = r then X else row_at g k)" for X k
    using row_at_update[OF assms(1) lg1, of X k] by (simp add: a)
  have iu: "in_row (row[c - 1 := x]) k = (if k = c then x else in_row (row_at g r) k)" for x k
    using in_row_update[OF assms(2) lrow, of x k] by (simp add: b)
  show ?thesis
    unfolding upd cell_at_row ru by (simp add: iu[simplified] b)
qed

lemma cell_at_set_value:
  assumes "1 \<le> r" and "1 \<le> c"
  shows "cell_at (set_value g r c v) r' c' =
           (if r' = r \<and> c' = c then (cell_at g r c)\<lparr>cvalue := v\<rparr> else cell_at g r' c')"
  using assms by (simp add: set_value_def cell_at_update_cell)

lemma result_of_failed_iff:
  "result_of as = ''FAILED'' \<longleftrightarrow> (\<exists>a \<in> set as. error a \<noteq> None)"
  by (induction as) auto

lemma result_of_cases: "result_of as = ''PASSED'' \<or> result_of as = ''FAILED''"
  by (induction as) auto

lemma written_status_cell:
  assumes "1 \<le> row_num" and "1 \<le> status_idx"
  shows "cell_at (write_result g row_num actual_idx status_idx e) row_num status_idx
           = (cell_at (set_value g row_num actual_idx (actual_status e)) row_num status_idx)
               \<lparr>cvalue := CStr (result_of (assertions e)),
                cfill := Some (status_fill (result_of (assertions e)))\<rparr>"
  using assms by (simp add: write_result_def Let_def cell_at_update_cell)


lemma cell_at_Nil: "cell_at [] r c = empty_cell"
  by (auto simp: cell_at_def)


section \<open>The write-back loop consumes rows and executions in lockstep\<close>

lemma zip_take_same: "zip xs (take (length xs) ys) = zip xs ys"
proof (induction xs arbitrary: ys)
  case Nil
  show ?case by simp
next
  case (Cons x xs)
  show ?case by (cases ys) (simp_all add: Cons.IH)
qed

lemma zip_append_drop: "zip (xs @ ys) zs = zip xs zs @ zip ys (drop (length xs) zs)"
  by (simp add: zip_append1 zip_take_same)

lemma write_rows_log:
  "written (write_rows t links a s i rows st)
     = written st @ zip (map (Pair t) (filter (\<lambda>r. (t, r) \<in> set links) rows)) (exec_iter st)
   \<and> exec_iter (write_rows t links a s i rows st)
     = drop (length (filter (\<lambda>r. (t, r) \<in> set links) rows)) (exec_iter st)"
proof (induction rows arbitrary: st)
  case Nil
  show ?case by simp
next
  case (Cons r rows)
  note IH = Cons.IH
  show ?case
  proof (cases "(t, r) \<in> set links")
    case False
    then show ?thesis using IH[of st] by simp
  next
    case True
    show ?thesis
    proof (cases "exec_iter st")
      case Nil
      with True show ?thesis by simp
    next
      case (Cons e es)
      with True show ?thesis
        using IH by (simp add: Let_def)
    qed
  qed
qed

lemma length_insert_cols: "length (insert_cols g i n) = length g"
  by (simp add: insert_cols_def)

lemma length_update_cell: "length (update_cell g r c f) = max r (length g)"
  by (simp add: update_cell_def Let_def length_pad_to)

lemma max_row_insert_cols: "max_row (insert_cols g i n) = max_row g"
  by (simp add: max_row_def length_insert_cols)

lemma max_row_label_column: "max_row (label_column g c name) = max_row g"
  by (simp add: max_row_def label_column_def set_value_def length_update_cell)

lemma max_row_place_columns: "max_row (fst (place_columns g expected_idx)) = max_row g"
  by (simp add: place_columns_def Let_def max_row_label_column max_row_insert_cols
           split: option.splits prod.splits)

lemma reconcile_sheet_log:
  assumes "visible sh"
  shows "rs_written (reconcile_sheet links sh st)
     = rs_written st @ zip (sheet_links links sh) (rs_exec_iter st)
   \<and> rs_exec_iter (reconcile_sheet links sh st)
     = drop (length (sheet_links links sh)) (rs_exec_iter st)"
proof -
  obtain g a s where pc: "place_columns (cells sh) (expected_column (cells sh)) = (g, a, s)"
    by (cases "place_columns (cells sh) (expected_column (cells sh))") auto
  have mr: "max_row g = max_row (cells sh)"
    using max_row_place_columns[of "cells sh" "expected_column (cells sh)"] pc by simp
  have fm: "sheet_links links sh = map (Pair (title sh)) (filter (\<lambda>r. (title sh, r) \<in> set links) [2..<max_row (cells sh) + 1])"
    by (simp add: sheet_links_def filter_map comp_def)
  show ?thesis
    using assms by (simp add: reconcile_sheet_def Let_def pc mr fm write_rows_log)
qed

lemma reconcile_sheet_hidden:
  "\<not> visible sh \<Longrightarrow> rs_written (reconcile_sheet links sh st) = rs_written st
     \<and> rs_exec_iter (reconcile_sheet links sh st) =  rs_exec_iter st"
  by (simp add: reconcile_sheet_def)

lemma reconcile_fold_log:
  "rs_written (foldl (\<lambda>st sh. reconcile_sheet links sh st) st wb)
     = rs_written st @ zip (linked_rows wb links) (rs_exec_iter st)
   \<and> rs_exec_iter (foldl (\<lambda>st sh. reconcile_sheet links sh st) st wb)
     = drop (length (linked_rows wb links)) (rs_exec_iter st)"
proof (induction wb arbitrary: st)
  case Nil
  show ?case by (simp add: linked_rows_def)
next
  case (Cons sh wb)
  have lr: "linked_rows (sh # wb) links = (if visible sh then sheet_links links sh else []) @ linked_rows wb links"
    by (simp add: linked_rows_def)
  show ?case
  proof (cases "visible sh")
    case True
    then show ?thesis
      using Cons.IH[of "reconcile_sheet links sh st"] reconcile_sheet_log[OF True, of links st]
      by (simp add: lr zip_append_drop add.commute)
  next
    case False
    then show ?thesis
      using Cons.IH[of "reconcile_sheet links sh st"] reconcile_sheet_hidden[OF False, of links st]
      by (simp add: lr)
  qed
qed

lemma reconcile_log:
  "rs_written (reconcile wb links es) = zip (linked_rows wb links) es
   \<and> rs_exec_iter (reconcile wb links es) = drop (length (linked_rows wb links)) es"
  using reconcile_fold_log[of links "\<lparr>done_sheets = [], rs_exec_iter = es, rs_failed = [], rs_written = []\<rparr>" wb]
  by (simp add: reconcile_def)

lemma cell_at_write_result_other:
  assumes "1 \<le> r" "1 \<le> a" "1 \<le> s" "r' \<noteq> r"
  shows "cell_at (write_result g r a s e) r' c = cell_at g r' c"
  using assms by (simp add: write_result_def Let_def cell_at_update_cell cell_at_set_value)

lemma cell_at_write_result_actual:
  assumes "1 \<le> r" "1 \<le> a" "1 \<le> s" "a \<noteq> s"
  shows "cvalue (cell_at (write_result g r a s e) r a) = actual_status e"
  using assms by (simp add: write_result_def Let_def cell_at_update_cell cell_at_set_value)

lemma cell_at_write_result_status:
  assumes "1 \<le> r" "1 \<le> s"
  shows "cvalue (cell_at (write_result g r a s e) r s) = CStr (result_of (assertions e))
       \<and> cfill (cell_at (write_result g r a s e) r s) = Some (status_fill (result_of (assertions e)))"
  using assms by (simp add: written_status_cell)

lemma write_rows_untouched:
  assumes "1 \<le> a" "1 \<le> s" "\<forall>r \<in> set rows. 1 \<le> r"
    and "r' \<notin> set (take (length (exec_iter st)) (filter (\<lambda>r. (t, r) \<in> set links) rows))"
  shows "cell_at (ls_grid (write_rows t links a s i rows st)) r' c = cell_at (ls_grid st) r' c"
  using assms(3,4)
proof (induction rows arbitrary: st)
  case Nil
  show ?case by simp
next
  case (Cons r rows)
  note IH = Cons.IH and prems = Cons.prems
  show ?case
  proof (cases "(t, r) \<in> set links")
    case False
    then show ?thesis using IH[of st] prems by simp
  next
    case True
    show ?thesis
    proof (cases "exec_iter st")
      case Nil
      with True show ?thesis by simp
    next
      case (Cons e es)
      let ?g = "write_result (ls_grid st) r a s e"
      let ?st = "\<lparr>ls_grid = ?g, exec_iter = es,
                  failed_test_case_ids = (if result_of (assertions e) = ''FAILED''
                              then record_failure ?g r i e (failed_test_case_ids st)
                              else failed_test_case_ids st),
                  written = written st @ [((t, r), e)]\<rparr>"
      have step: "write_rows t links a s i (r # rows) st = write_rows t links a s i rows ?st"
        using True Cons by (simp add: Let_def)
      have ne: "r' \<noteq> r" and rest: "r' \<notin> set (take (length es) (filter (\<lambda>r. (t, r) \<in> set links) rows))"
        using prems(2) True Cons by simp_all
      have "cell_at (ls_grid (write_rows t links a s i rows ?st)) r' c = cell_at (ls_grid ?st) r' c"
        using IH[of ?st] prems(1) rest by simp
      also have "\<dots> = cell_at (ls_grid st) r' c"
        using cell_at_write_result_other[OF _ assms(1,2) ne, of "ls_grid st" e c] prems(1) by simp
      finally show ?thesis by (simp only: step)
    qed
  qed
qed

lemma write_rows_written_cell:
  assumes "1 \<le> a" "1 \<le> s" "distinct rows" "\<forall>r \<in> set rows. 1 \<le> r"
    and "(r', e') \<in> set (zip (filter (\<lambda>r. (t, r) \<in> set links) rows) (exec_iter st))"
  shows "cvalue (cell_at (ls_grid (write_rows t links a s i rows st)) r' s) = CStr (result_of (assertions e'))
       \<and> cfill (cell_at (ls_grid (write_rows t links a s i rows st)) r' s) = Some (status_fill (result_of (assertions e')))
       \<and> (a \<noteq> s \<longrightarrow> cvalue (cell_at (ls_grid (write_rows t links a s i rows st)) r' a) = actual_status e')"
  using assms(3,4,5)
proof (induction rows arbitrary: st)
  case Nil
  then show ?case by simp
next
  case (Cons r rows)
  note IH = Cons.IH and prems = Cons.prems
  show ?case
  proof (cases "(t, r) \<in> set links")
    case False
    then show ?thesis using IH[of st] prems by simp
  next
    case True
    show ?thesis
    proof (cases "exec_iter st")
      case Nil
      with True prems(3) show ?thesis by simp
    next
      case (Cons e es)
      let ?g = "write_result (ls_grid st) r a s e"
      let ?st = "\<lparr>ls_grid = ?g, exec_iter = es,
                  failed_test_case_ids = (if result_of (assertions e) = ''FAILED''
                              then record_failure ?g r i e (failed_test_case_ids st)
                              else failed_test_case_ids st),
                  written = written st @ [((t, r), e)]\<rparr>"
      have step: "write_rows t links a s i (r # rows) st = write_rows t links a s i rows ?st"
        using True Cons by (simp add: Let_def)
      have r1: "1 \<le> r" and rs1: "\<forall>r \<in> set rows. 1 \<le> r" and d: "distinct rows" and nin: "r \<notin> set rows"
        using prems(1,2) by simp_all
      from prems(3) True Cons
      have "(r' = r \<and> e' = e) \<or> (r', e') \<in> set (zip (filter (\<lambda>r. (t, r) \<in> set links) rows) es)"
        by auto
      then show ?thesis
      proof
        assume h: "r' = r \<and> e' = e"
        have "r \<notin> set (take (length (exec_iter ?st)) (filter (\<lambda>r. (t, r) \<in> set links) rows))"
          using nin by (auto dest: in_set_takeD)
        then have same: "cell_at (ls_grid (write_rows t links a s i rows ?st)) r c = cell_at ?g r c" for c
          using write_rows_untouched[OF assms(1,2) rs1, of r ?st t links i c] by simp
        show ?thesis
          unfolding step using h same cell_at_write_result_status[OF r1 assms(2), of "ls_grid st" a e]
            cell_at_write_result_actual[OF r1 assms(1,2), of "ls_grid st" e]
          by simp
      next
        assume "(r', e') \<in> set (zip (filter (\<lambda>r. (t, r) \<in> set links) rows) es)"
        then show ?thesis
          unfolding step using IH[of ?st] d rs1 by simp
      qed
    qed
  qed
qed

lemma first_match_ge: "first_match name vs k = Some i \<Longrightarrow> k \<le> i"
  by (induction vs arbitrary: k) (auto split: if_splits dest: Suc_leD)

lemma find_col_ge: "find_col g name = Some i \<Longrightarrow> 1 \<le> i"
  unfolding find_col_def by (rule first_match_ge)

lemma place_columns_ge:
  assumes "place_columns g expected_idx = (g', a, s)"
  shows "1 \<le> a \<and> 1 \<le> s"
  using assms
  by (auto simp: place_columns_def Let_def split: option.splits prod.splits if_splits
           dest: find_col_ge)

lemma reconcile_sheet_done_visible:
  assumes "visible sh" and "placed sh = (g, a, s)"
  shows "done_sheets (reconcile_sheet links sh st)
           = done_sheets st @
             [sh\<lparr>cells := ls_grid (write_rows (title sh) links a s (id_column (cells sh))
                       [2..<max_row (cells sh) + 1]
                       \<lparr>ls_grid = g, exec_iter = rs_exec_iter st,
                        failed_test_case_ids = rs_failed st, written = rs_written st\<rparr>)\<rparr>]"
proof -
  have mr: "max_row g = max_row (cells sh)"
    using max_row_place_columns[of "cells sh" "expected_column (cells sh)"] assms(2)
    by (simp add: placed_def)
  show ?thesis
    using assms by (simp add: reconcile_sheet_def Let_def placed_def mr)
qed

lemma reconcile_sheet_done_length:
  "length (done_sheets (reconcile_sheet links sh st)) = Suc (length (done_sheets st))"
  by (simp add: reconcile_sheet_def Let_def split: prod.splits)

lemma reconcile_sheet_done_prefix:
  "take (length (done_sheets st)) (done_sheets (reconcile_sheet links sh st)) = done_sheets st"
  by (simp add: reconcile_sheet_def Let_def split: prod.splits)

lemma fold_done_prefix:
  "length (done_sheets (foldl (\<lambda>st sh. reconcile_sheet links sh st) st wb))
     = length (done_sheets st) + length wb
   \<and> take (length (done_sheets st)) (done_sheets (foldl (\<lambda>st sh. reconcile_sheet links sh st) st wb))
     = done_sheets st"
proof (induction wb arbitrary: st)
  case Nil
  show ?case by simp
next
  case (Cons sh wb)
  let ?st = "reconcile_sheet links sh st"
  let ?F = "foldl (\<lambda>st sh. reconcile_sheet links sh st)"
  have l: "length (done_sheets (?F ?st wb)) = Suc (length (done_sheets st)) + length wb"
    using Cons.IH[of ?st] by (simp add: reconcile_sheet_done_length)
  have "take (length (done_sheets st)) (done_sheets (?F ?st wb))
          = take (length (done_sheets st)) (take (length (done_sheets ?st)) (done_sheets (?F ?st wb)))"
    by (simp add: reconcile_sheet_done_length min_def)
  also have "\<dots> = take (length (done_sheets st)) (done_sheets ?st)"
    using Cons.IH[of ?st] by simp
  also have "\<dots> = done_sheets st" by (rule reconcile_sheet_done_prefix)
  finally show ?case using l by simp
qed

lemma fold_done_nth_old:
  assumes "j < length (done_sheets st)"
  shows "done_sheets (foldl (\<lambda>st sh. reconcile_sheet links sh st) st wb) ! j = done_sheets st ! j"
proof -
  let ?D = "done_sheets (foldl (\<lambda>st sh. reconcile_sheet links sh st) st wb)"
  have "take (length (done_sheets st)) ?D ! j = ?D ! j" using assms by simp
  then show ?thesis using fold_done_prefix[of links st wb] by simp
qed

lemma sheet_links_alt:
  "sheet_links links sh
     = map (Pair (title sh)) (filter (\<lambda>r. (title sh, r) \<in> set links) [2..<max_row (cells sh) + 1])"
  by (simp add: sheet_links_def filter_map comp_def)

lemma linked_rows_Cons:
  "linked_rows (sh # wb) links
     = (if visible sh then sheet_links links sh else []) @ linked_rows wb links"
  by (simp add: linked_rows_def)

lemma linked_rows_title:
  "p \<in> set (linked_rows wb links) \<Longrightarrow> fst p \<in> title ` set (filter visible wb)"
  by (auto simp: linked_rows_def sheet_links_def)

lemma zip_Pair_mem:
  "((t', r), e) \<in> set (zip (map (Pair t) xs) es) \<longleftrightarrow> t' = t \<and> (r, e) \<in> set (zip xs es)"
  by (auto simp: zip_map1)

lemma fst_zip_take: "fst ` set (zip xs ys) = set (take (length ys) xs)"
proof -
  have "fst ` set (zip xs ys) = set (map fst (zip xs ys))" by simp
  also have "\<dots> = set (take (min (length xs) (length ys)) xs)" by (simp only: map_fst_zip_take)
  also have "\<dots> = set (take (length ys) xs)" by (simp add: min_def)
  finally show ?thesis .
qed

lemma reconcile_sheet_exec:
  "rs_exec_iter (reconcile_sheet links sh st)
     = drop (length (if visible sh then sheet_links links sh else [])) (rs_exec_iter st)"
  using reconcile_sheet_log[of sh links st] reconcile_sheet_hidden[of sh links st]
  by (cases "visible sh") simp_all

lemma sheet_rows_facts:
  "distinct [2..<n + 1] \<and> (\<forall>r \<in> set [2..<n + 1]. 1 \<le> r)"
  by auto

lemma sheet_untouched:
  assumes vis: "visible sh" and pl: "placed sh = (g, a, s)"
    and nw: "(title sh, r) \<notin> set (take (length (rs_exec_iter st)) (sheet_links links sh))"
  shows "cell_at (cells (last (done_sheets (reconcile_sheet links sh st)))) r c = cell_at g r c"
proof -
  define rows where "rows = [2..<max_row (cells sh) + 1]"
  have ge: "1 \<le> a" "1 \<le> s"
    using place_columns_ge[of "cells sh" "expected_column (cells sh)" g a s] pl
    by (simp_all add: placed_def)
  have rows1: "\<forall>r \<in> set rows. 1 \<le> r"
    unfolding rows_def using sheet_rows_facts by blast
  let ?ls = "\<lparr>ls_grid = g, exec_iter = rs_exec_iter st,
              failed_test_case_ids = rs_failed st, written = rs_written st\<rparr>"
  have sl: "sheet_links links sh = map (Pair (title sh)) (filter (\<lambda>r. (title sh, r) \<in> set links) rows)"
    unfolding rows_def by (rule sheet_links_alt)
  have "r \<notin> set (take (length (exec_iter ?ls)) (filter (\<lambda>r. (title sh, r) \<in> set links) rows))"
  proof
    assume "r \<in> set (take (length (exec_iter ?ls)) (filter (\<lambda>r. (title sh, r) \<in> set links) rows))"
    then have "(title sh, r) \<in> set (take (length (rs_exec_iter st)) (sheet_links links sh))"
      by (simp add: sl take_map)
    with nw show False by blast
  qed
  then have "cell_at (ls_grid (write_rows (title sh) links a s (id_column (cells sh)) rows ?ls)) r c
               = cell_at (ls_grid ?ls) r c"
    by (rule write_rows_untouched[OF ge rows1])
  then show ?thesis
    by (simp add: reconcile_sheet_done_visible[OF vis pl] rows_def)
qed

lemma sheet_written:
  assumes vis: "visible sh" and pl: "placed sh = (g, a, s)"
    and w: "((title sh, r), e) \<in> set (zip (sheet_links links sh) (rs_exec_iter st))"
  shows "cvalue (cell_at (cells (last (done_sheets (reconcile_sheet links sh st)))) r s)
           = CStr (result_of (assertions e))
       \<and> cfill (cell_at (cells (last (done_sheets (reconcile_sheet links sh st)))) r s)
           = Some (status_fill (result_of (assertions e)))
       \<and> (a \<noteq> s \<longrightarrow>
            cvalue (cell_at (cells (last (done_sheets (reconcile_sheet links sh st)))) r a)
              = actual_status e)"
proof -
  define rows where "rows = [2..<max_row (cells sh) + 1]"
  have ge: "1 \<le> a" "1 \<le> s"
    using place_columns_ge[of "cells sh" "expected_column (cells sh)" g a s] pl
    by (simp_all add: placed_def)
  have rows1: "\<forall>r \<in> set rows. 1 \<le> r" and d: "distinct rows"
    unfolding rows_def using sheet_rows_facts by blast+
  let ?ls = "\<lparr>ls_grid = g, exec_iter = rs_exec_iter st,
              failed_test_case_ids = rs_failed st, written = rs_written st\<rparr>"
  have sl: "sheet_links links sh = map (Pair (title sh)) (filter (\<lambda>r. (title sh, r) \<in> set links) rows)"
    unfolding rows_def by (rule sheet_links_alt)
  have "(r, e) \<in> set (zip (filter (\<lambda>r. (title sh, r) \<in> set links) rows) (exec_iter ?ls))"
    using w by (simp add: sl zip_Pair_mem)
  from write_rows_written_cell[OF ge d rows1 this, of "id_column (cells sh)"]
  show ?thesis
    by (simp add: reconcile_sheet_done_visible[OF vis pl] rows_def)
qed

lemma fold_done_at:
  "done_sheets (foldl (\<lambda>st sh. reconcile_sheet links sh st) (reconcile_sheet links sh st) wb)
     ! length (done_sheets st) = last (done_sheets (reconcile_sheet links sh st))"
proof -
  let ?st = "reconcile_sheet links sh st"
  have l: "length (done_sheets ?st) = Suc (length (done_sheets st))"
    by (rule reconcile_sheet_done_length)
  then have ne: "done_sheets ?st \<noteq> []" by auto
  have "done_sheets (foldl (\<lambda>st sh. reconcile_sheet links sh st) ?st wb) ! length (done_sheets st)
          = done_sheets ?st ! length (done_sheets st)"
    using fold_done_nth_old[of "length (done_sheets st)" ?st links wb] l by simp
  also have "\<dots> = last (done_sheets ?st)"
    using l ne by (simp add: last_conv_nth)
  finally show ?thesis .
qed

lemma fold_untouched:
  assumes "i < length wb" and "visible (wb ! i)"
    and "(title (wb ! i), r) \<notin> fst ` set (zip (linked_rows wb links) (rs_exec_iter st))"
  shows "cell_at (cells (done_sheets (foldl (\<lambda>st sh. reconcile_sheet links sh st) st wb)
                       ! (length (done_sheets st) + i))) r c
           = cell_at (fst (placed (wb ! i))) r c"
  using assms
proof (induction wb arbitrary: st i)
  case Nil
  then show ?case by simp
next
  case (Cons sh wb)
  let ?st = "reconcile_sheet links sh st"
  let ?F = "foldl (\<lambda>st sh. reconcile_sheet links sh st)"
  let ?own = "if visible sh then sheet_links links sh else []"
  have split: "zip (linked_rows (sh # wb) links) (rs_exec_iter st)
                 = zip ?own (rs_exec_iter st) @ zip (linked_rows wb links) (rs_exec_iter ?st)"
    by (simp only: linked_rows_Cons zip_append_drop reconcile_sheet_exec)
  show ?case
  proof (cases i)
    case 0
    with Cons.prems have vis: "visible sh" by simp
    obtain g a s where pl: "placed sh = (g, a, s)" by (cases "placed sh") auto
    have "(title sh, r) \<notin> fst ` set (zip (sheet_links links sh) (rs_exec_iter st))"
      using Cons.prems(3) 0 vis unfolding split by (simp add: image_Un)
    then have "(title sh, r) \<notin> set (take (length (rs_exec_iter st)) (sheet_links links sh))"
      unfolding fst_zip_take .
    from sheet_untouched[OF vis pl this, of c]
    show ?thesis using 0 pl by (simp add: fold_done_at)
  next
    case (Suc j)
    have "(title (wb ! j), r) \<notin> fst ` set (zip (linked_rows wb links) (rs_exec_iter ?st))"
      using Cons.prems(3) Suc unfolding split by (simp add: image_Un)
    then have "cell_at (cells (done_sheets (?F ?st wb) ! (length (done_sheets ?st) + j))) r c
                 = cell_at (fst (placed (wb ! j))) r c"
      using Cons.IH[of j ?st] Cons.prems(1,2) Suc by simp
    then show ?thesis using Suc by (simp add: reconcile_sheet_done_length)
  qed
qed

lemma fold_written:
  assumes "distinct (map title (filter visible wb))"
    and "i < length wb" and "visible (wb ! i)"
    and "((title (wb ! i), r), e) \<in> set (zip (linked_rows wb links) (rs_exec_iter st))"
    and "placed (wb ! i) = (g, a, s)"
  shows "cvalue (cell_at (cells (done_sheets (foldl (\<lambda>st sh. reconcile_sheet links sh st) st wb)
                       ! (length (done_sheets st) + i))) r s) = CStr (result_of (assertions e))
       \<and> cfill (cell_at (cells (done_sheets (foldl (\<lambda>st sh. reconcile_sheet links sh st) st wb)
                       ! (length (done_sheets st) + i))) r s) = Some (status_fill (result_of (assertions e)))
       \<and> (a \<noteq> s \<longrightarrow>
            cvalue (cell_at (cells (done_sheets (foldl (\<lambda>st sh. reconcile_sheet links sh st) st wb)
                       ! (length (done_sheets st) + i))) r a) = actual_status e)"
  using assms
proof (induction wb arbitrary: st i)
  case Nil
  then show ?case by simp
next
  case (Cons sh wb)
  let ?st = "reconcile_sheet links sh st"
  let ?F = "foldl (\<lambda>st sh. reconcile_sheet links sh st)"
  let ?own = "if visible sh then sheet_links links sh else []"
  have split: "zip (linked_rows (sh # wb) links) (rs_exec_iter st)
                 = zip ?own (rs_exec_iter st) @ zip (linked_rows wb links) (rs_exec_iter ?st)"
    by (simp only: linked_rows_Cons zip_append_drop reconcile_sheet_exec)
  show ?case
  proof (cases i)
    case 0
    with Cons.prems have vis: "visible sh" and pl: "placed sh = (g, a, s)" by simp_all
    have notlater: "((title sh, r), e) \<notin> set (zip (linked_rows wb links) (rs_exec_iter ?st))"
    proof
      assume "((title sh, r), e) \<in> set (zip (linked_rows wb links) (rs_exec_iter ?st))"
      then have "(title sh, r) \<in> set (linked_rows wb links)" by (rule set_zip_leftD)
      then have "title sh \<in> title ` set (filter visible wb)"
        using linked_rows_title[of "(title sh, r)" wb links] by simp
      with Cons.prems(1) vis show False by simp
    qed
    have "((title sh, r), e) \<in> set (zip (sheet_links links sh) (rs_exec_iter st))"
      using Cons.prems(4) 0 vis notlater unfolding split by simp
    from sheet_written[OF vis pl this]
    show ?thesis using 0 by (simp add: fold_done_at)
  next
    case (Suc j)
    from Cons.prems Suc have j: "j < length wb" and vj: "visible (wb ! j)"
      and pj: "placed (wb ! j) = (g, a, s)" by simp_all
    have d: "distinct (map title (filter visible wb))"
      using Cons.prems(1) by (simp split: if_splits)
    have "((title (wb ! j), r), e) \<notin> set (zip ?own (rs_exec_iter st))"
    proof
      assume a: "((title (wb ! j), r), e) \<in> set (zip ?own (rs_exec_iter st))"
      then have vis: "visible sh" by (simp split: if_splits)
      with a have "title (wb ! j) = title sh" by (simp add: sheet_links_alt zip_Pair_mem)
      moreover have "wb ! j \<in> set (filter visible wb)" using j vj by simp
      ultimately show False using Cons.prems(1) vis by (auto simp: image_iff)
    qed
    then have "((title (wb ! j), r), e) \<in> set (zip (linked_rows wb links) (rs_exec_iter ?st))"
      using Cons.prems(4) Suc unfolding split by simp
    then show ?thesis
      using Cons.IH[of j ?st, OF d j vj _ pj] Suc by (simp add: reconcile_sheet_done_length)
  qed
qed

lemma first_match_Some:
  "first_match name vs k = Some i \<Longrightarrow>
     k \<le> i \<and> i - k < length vs \<and> vs ! (i - k) = CStr name \<and> (\<forall>j < i - k. vs ! j \<noteq> CStr name)"
proof (induction vs arbitrary: k)
  case Nil
  then show ?case by simp
next
  case (Cons v vs)
  show ?case
  proof (cases "v = CStr name")
    case True
    with Cons.prems show ?thesis by simp
  next
    case False
    with Cons.prems have fm: "first_match name vs (Suc k) = Some i" by simp
    from Cons.IH[OF fm] have ih: "Suc k \<le> i" "i - Suc k < length vs" "vs ! (i - Suc k) = CStr name"
      "\<forall>j < i - Suc k. vs ! j \<noteq> CStr name" by simp_all
    have e: "i - k = Suc (i - Suc k)" using ih(1) by simp
    show ?thesis
      unfolding e using ih False by (auto simp: nth_Cons split: nat.splits)
  qed
qed

lemma first_match_None:
  "first_match name vs k = None \<longleftrightarrow> CStr name \<notin> set vs"
  by (induction vs arbitrary: k) auto

lemma length_header_values: "length (header_values g) = max_column g"
  by (simp add: header_values_def del: upt_Suc)

lemma nth_header_values:
  assumes "1 \<le> i" and "i \<le> max_column g"
  shows "header_values g ! (i - 1) = cvalue (cell_at g 1 i)"
proof -
  have lt: "i - 1 < length [1..<max_column g + 1]" using assms by (simp del: upt_Suc)
  have "1 + (i - 1) < max_column g + 1" using assms by arith
  then have "[1..<max_column g + 1] ! (i - 1) = 1 + (i - 1)" by (rule nth_upt)
  then have n: "[1..<max_column g + 1] ! (i - 1) = i" using assms by simp
  show ?thesis
    unfolding header_values_def nth_map[OF lt] n ..
qed

lemma find_col_Some:
  assumes "find_col g name = Some i"
  shows "1 \<le> i \<and> i \<le> max_column g \<and> cvalue (cell_at g 1 i) = CStr name
       \<and> (\<forall>j. 1 \<le> j \<and> j < i \<longrightarrow> cvalue (cell_at g 1 j) \<noteq> CStr name)"
proof -
  from first_match_Some[OF assms[unfolded find_col_def]]
  have a: "1 \<le> i" and b: "i - 1 < max_column g" and c: "header_values g ! (i - 1) = CStr name"
    and d: "\<forall>j < i - 1. header_values g ! j \<noteq> CStr name"
    by (simp_all add: length_header_values)
  have i: "i \<le> max_column g" using a b by simp
  have "cvalue (cell_at g 1 j) \<noteq> CStr name" if "1 \<le> j" "j < i" for j
  proof -
    have "header_values g ! (j - 1) \<noteq> CStr name" using d that by simp
    moreover have "j \<le> max_column g" using that i by simp
    ultimately show ?thesis using nth_header_values[OF that(1), of g] by simp
  qed
  then show ?thesis using a i c nth_header_values[OF a i] by simp
qed

lemma find_col_None:
  assumes "find_col g name = None" and "1 \<le> j" and "j \<le> max_column g"
  shows "cvalue (cell_at g 1 j) \<noteq> CStr name"
proof -
  have "CStr name \<notin> set (header_values g)"
    using assms(1) by (simp add: find_col_def first_match_None)
  moreover have "header_values g ! (j - 1) \<in> set (header_values g)"
    using assms(2,3) by (simp add: length_header_values)
  ultimately show ?thesis using nth_header_values[OF assms(2,3)] by metis
qed

lemma distinct_sheet_links: "distinct (sheet_links links sh)"
  unfolding sheet_links_alt by (simp add: distinct_map inj_on_def del: upt_Suc)

lemma sheet_links_title: "p \<in> set (sheet_links links sh) \<Longrightarrow> fst p = title sh"
  by (auto simp: sheet_links_def)

lemma distinct_linked_rows:
  "distinct (map title (filter visible wb)) \<Longrightarrow> distinct (linked_rows wb links)"
proof (induction wb)
  case Nil
  show ?case by (simp add: linked_rows_def)
next
  case (Cons sh wb)
  show ?case
  proof (cases "visible sh")
    case False
    with Cons show ?thesis by (simp add: linked_rows_Cons)
  next
    case True
    have d: "distinct (linked_rows wb links)" using Cons True by simp
    have "set (sheet_links links sh) \<inter> set (linked_rows wb links) = {}"
    proof (rule ccontr)
      assume "set (sheet_links links sh) \<inter> set (linked_rows wb links) \<noteq> {}"
      then obtain p where p1: "p \<in> set (sheet_links links sh)" and p2: "p \<in> set (linked_rows wb links)"
        by blast
      from p1 have "fst p = title sh" by (rule sheet_links_title)
      moreover from p2 have "fst p \<in> title ` set (filter visible wb)" by (rule linked_rows_title)
      ultimately show False using Cons.prems True by simp
    qed
    with d show ?thesis using True by (simp add: linked_rows_Cons distinct_sheet_links)
  qed
qed

lemma take_drop_disjoint: "distinct xs \<Longrightarrow> set (take k xs) \<inter> set (drop k xs) = {}"
  using distinct_append[of "take k xs" "drop k xs"] by simp

text \<open>
  C7. When there are fewer executions than linked rows, the reconciler still returns (the
  model is a total function whose only exit on an exhausted iterator is the \<open>break\<close> branch):
  the rows it writes are exactly the first \<open>k\<close> linked rows, \<open>k\<close> the number of
  executions, each with the verdict and actual status of the execution at the same position;
  the iterator ends empty; and every cell of each remaining linked row is what it was when
  the result columns had been placed.
\<close>

theorem short_execution_list:
  assumes short: "length es < length (linked_rows wb links)"
    and titles: "distinct (map title (filter visible wb))"
  shows "map fst (rs_written (reconcile wb links es)) = take (length es) (linked_rows wb links)
       \<and> map snd (rs_written (reconcile wb links es)) = es
       \<and> rs_exec_iter (reconcile wb links es) = []
       \<and> (\<forall>i r e g a s. i < length wb \<and> visible (wb ! i) \<and> placed (wb ! i) = (g, a, s)
             \<and> ((title (wb ! i), r), e) \<in> set (zip (linked_rows wb links) es) \<longrightarrow>
             cvalue (cell_at (cells (done_sheets (reconcile wb links es) ! i)) r s)
               = CStr (result_of (assertions e))
           \<and> cfill (cell_at (cells (done_sheets (reconcile wb links es) ! i)) r s)
               = Some (status_fill (result_of (assertions e)))
           \<and> (a \<noteq> s \<longrightarrow> cvalue (cell_at (cells (done_sheets (reconcile wb links es) ! i)) r a)
               = actual_status e))
       \<and> (\<forall>i r c. i < length wb \<and> visible (wb ! i)
             \<and> (title (wb ! i), r) \<in> set (drop (length es) (linked_rows wb links)) \<longrightarrow>
             cell_at (cells (done_sheets (reconcile wb links es) ! i)) r c
               = cell_at (fst (placed (wb ! i))) r c)"
proof -
  let ?L = "linked_rows wb links"
  let ?st0 = "\<lparr>done_sheets = [], rs_exec_iter = es, rs_failed = [], rs_written = []\<rparr>"
  have R: "reconcile wb links es = foldl (\<lambda>st sh. reconcile_sheet links sh st) ?st0 wb"
    by (simp add: reconcile_def)
  have log: "rs_written (reconcile wb links es) = zip ?L es"
    and it: "rs_exec_iter (reconcile wb links es) = drop (length ?L) es"
    using reconcile_log[of wb links es] by simp_all
  have c1: "map fst (rs_written (reconcile wb links es)) = take (length es) ?L"
    unfolding log using short by (simp add: map_fst_zip_take min_def)
  have c2: "map snd (rs_written (reconcile wb links es)) = es"
    unfolding log using short by (simp add: map_snd_zip_take min_def)
  have c3: "rs_exec_iter (reconcile wb links es) = []"
    unfolding it using short by simp
  have c4: "cvalue (cell_at (cells (done_sheets (reconcile wb links es) ! i)) r s)
               = CStr (result_of (assertions e))
           \<and> cfill (cell_at (cells (done_sheets (reconcile wb links es) ! i)) r s)
               = Some (status_fill (result_of (assertions e)))
           \<and> (a \<noteq> s \<longrightarrow> cvalue (cell_at (cells (done_sheets (reconcile wb links es) ! i)) r a)
               = actual_status e)"
    if "i < length wb" "visible (wb ! i)" "placed (wb ! i) = (g, a, s)"
       "((title (wb ! i), r), e) \<in> set (zip ?L es)" for i r e g a s
    using fold_written[OF titles that(1,2) _ that(3), of r e links ?st0] that(4)
    unfolding R by simp
  have c5: "cell_at (cells (done_sheets (reconcile wb links es) ! i)) r c
               = cell_at (fst (placed (wb ! i))) r c"
    if "i < length wb" "visible (wb ! i)" "(title (wb ! i), r) \<in> set (drop (length es) ?L)"
    for i r c
  proof -
    have "set (take (length es) ?L) \<inter> set (drop (length es) ?L) = {}"
      using distinct_linked_rows[OF titles] by (rule take_drop_disjoint)
    with that(3) have "(title (wb ! i), r) \<notin> set (take (length es) ?L)" by blast
    then have "(title (wb ! i), r) \<notin> fst ` set (zip ?L (rs_exec_iter ?st0))"
      by (simp add: fst_zip_take)
    from fold_untouched[OF that(1,2) this, of c]
    show ?thesis unfolding R by simp
  qed
  from c1 c2 c3 c4 c5 show ?thesis by blast
qed

theorem short_execution_list_witness:
  "length [failing_execution] < length (linked_rows [users_sheet] [(''Users'', 2), (''Users'', 3)])
   \<and> distinct (map title (filter visible [users_sheet]))
   \<and> map fst (rs_written (reconcile [users_sheet] [(''Users'', 2), (''Users'', 3)] [failing_execution]))
       = [(''Users'', 2)]
   \<and> cell_at (cells (done_sheets
         (reconcile [users_sheet] [(''Users'', 2), (''Users'', 3)] [failing_execution]) ! 0)) 3 5
       = empty_cell"
proof -
  let ?wb = "[users_sheet]"
  let ?links = "[(''Users'', 2), (''Users'', 3)] :: (string \<times> nat) list"
  let ?es = "[failing_execution]"
  have L: "linked_rows ?wb ?links = [(''Users'', 2), (''Users'', 3)]" by code_simp
  have h1: "length ?es < length (linked_rows ?wb ?links)" unfolding L by simp
  have h2: "distinct (map title (filter visible ?wb))" by code_simp
  note T = short_execution_list[OF h1 h2]
  from T have "map fst (rs_written (reconcile ?wb ?links ?es)) = take (length ?es) (linked_rows ?wb ?links)"
    by blast
  then have a: "map fst (rs_written (reconcile ?wb ?links ?es)) = [(''Users'', 2)]"
    unfolding L by simp
  have pre: "0 < length ?wb \<and> visible (?wb ! 0)
       \<and> (title (?wb ! 0), 3) \<in> set (drop (length ?es) (linked_rows ?wb ?links))"
    unfolding L by (simp add: users_sheet_def)
  from T have "\<forall>i r c. i < length ?wb \<and> visible (?wb ! i)
             \<and> (title (?wb ! i), r) \<in> set (drop (length ?es) (linked_rows ?wb ?links)) \<longrightarrow>
             cell_at (cells (done_sheets (reconcile ?wb ?links ?es) ! i)) r c
               = cell_at (fst (placed (?wb ! i))) r c"
    by blast
  with pre have "cell_at (cells (done_sheets (reconcile ?wb ?links ?es) ! 0)) 3 5
               = cell_at (fst (placed (?wb ! 0))) 3 5"
    by blast
  moreover have "cell_at (fst (placed (?wb ! 0))) 3 5 = empty_cell" by code_simp
  ultimately have b: "cell_at (cells (done_sheets (reconcile ?wb ?links ?es) ! 0)) 3 5 = empty_cell"
    by simp
  from h1 h2 a b show ?thesis by blast
qed


section \<open>Verdict of a reconciled row\<close>

text \<open>
  C10. Take a row that the reconciler annotates: a row of a visible sheet that the linkage
  pairs with an execution, the pairing being the one the write-back loop makes (linked rows
  and executions side by side). If the assertion list of that execution is empty, the
  verdict cell of the row in the saved sheet reads \<open>PASSED\<close> and has the success fill. The
  verdict cell reads \<open>FAILED\<close> exactly when some assertion outcome of the execution carries
  an error; it then has the failure fill, and otherwise it reads \<open>PASSED\<close> with the
  success fill.
\<close>

theorem reconciled_verdict:
  assumes titles: "distinct (map title (filter visible wb))"
    and i: "i < length wb" and vis: "visible (wb ! i)"
    and pl: "placed (wb ! i) = (g, a, s)"
    and paired: "((title (wb ! i), r), e) \<in> set (zip (linked_rows wb links) es)"
  shows "(assertions e = [] \<longrightarrow>
            cvalue (cell_at (cells (done_sheets (reconcile wb links es) ! i)) r s) = CStr ''PASSED''
          \<and> cfill (cell_at (cells (done_sheets (reconcile wb links es) ! i)) r s) = Some GREEN)
       \<and> (cvalue (cell_at (cells (done_sheets (reconcile wb links es) ! i)) r s) = CStr ''FAILED''
            \<longleftrightarrow> (\<exists>x \<in> set (assertions e). error x \<noteq> None))
       \<and> (cvalue (cell_at (cells (done_sheets (reconcile wb links es) ! i)) r s) = CStr ''FAILED''
            \<longrightarrow> cfill (cell_at (cells (done_sheets (reconcile wb links es) ! i)) r s) = Some RED)
       \<and> (cvalue (cell_at (cells (done_sheets (reconcile wb links es) ! i)) r s) \<noteq> CStr ''FAILED''
            \<longrightarrow> cvalue (cell_at (cells (done_sheets (reconcile wb links es) ! i)) r s) = CStr ''PASSED''
              \<and> cfill (cell_at (cells (done_sheets (reconcile wb links es) ! i)) r s) = Some GREEN)"
proof -
  let ?st0 = "\<lparr>done_sheets = [], rs_exec_iter = es, rs_failed = [], rs_written = []\<rparr>"
  let ?res = "result_of (assertions e)"
  let ?X = "cell_at (cells (done_sheets (reconcile wb links es) ! i)) r s"
  have R: "reconcile wb links es = foldl (\<lambda>st sh. reconcile_sheet links sh st) ?st0 wb"
    by (simp add: reconcile_def)
  have w: "cvalue ?X = CStr ?res \<and> cfill ?X = Some (status_fill ?res)"
    using fold_written[OF titles i vis _ pl, of r e links ?st0] paired
    unfolding R by simp
  then have v: "cvalue ?X = CStr ?res" and f: "cfill ?X = Some (status_fill ?res)"
    by simp_all
  have p1: "cvalue ?X = CStr ''PASSED'' \<and> cfill ?X = Some GREEN" if "assertions e = []"
    using that by (simp add: v f status_fill_def)
  have p2: "cvalue ?X = CStr ''FAILED'' \<longleftrightarrow> (\<exists>x \<in> set (assertions e). error x \<noteq> None)"
    unfolding v using result_of_failed_iff[of "assertions e"] by simp
  have p3: "cfill ?X = Some RED" if "cvalue ?X = CStr ''FAILED''"
  proof -
    from that have "?res = ''FAILED''" by (simp add: v)
    then show ?thesis by (simp add: f status_fill_def)
  qed
  have p4: "cvalue ?X = CStr ''PASSED'' \<and> cfill ?X = Some GREEN" if "cvalue ?X \<noteq> CStr ''FAILED''"
  proof -
    from that have "?res \<noteq> ''FAILED''" by (simp add: v)
    with result_of_cases[of "assertions e"] have "?res = ''PASSED''" by simp
    then show ?thesis by (simp add: v f status_fill_def)
  qed
  show ?thesis
    by (rule conjI[OF impI[OF p1] conjI[OF p2 conjI[OF impI[OF p3] impI[OF p4]]]])
qed

theorem reconciled_verdict_witness:
  "distinct (map title (filter visible [users_sheet]))
   \<and> (0::nat) < length [users_sheet] \<and> visible ([users_sheet] ! 0)
   \<and> placed ([users_sheet] ! 0) = (fst (placed users_sheet), 4, 5)
   \<and> ((title ([users_sheet] ! 0), 3), unasserted_execution)
        \<in> set (zip (linked_rows [users_sheet] [(''Users'', 2), (''Users'', 3)])
                   [failing_execution, unasserted_execution])
   \<and> ((title ([users_sheet] ! 0), 2), failing_execution)
        \<in> set (zip (linked_rows [users_sheet] [(''Users'', 2), (''Users'', 3)])
                   [failing_execution, unasserted_execution])
   \<and> assertions unasserted_execution = []
   \<and> cell_at (cells (done_sheets (reconcile [users_sheet] [(''Users'', 2), (''Users'', 3)]
                 [failing_execution, unasserted_execution]) ! 0)) 3 5
       = \<lparr>cvalue = CStr ''PASSED'', cfill = Some GREEN\<rparr>
   \<and> cell_at (cells (done_sheets (reconcile [users_sheet] [(''Users'', 2), (''Users'', 3)]
                 [failing_execution, unasserted_execution]) ! 0)) 2 5
       = \<lparr>cvalue = CStr ''FAILED'', cfill = Some RED\<rparr>"
proof -
  let ?wb = "[users_sheet]"
  let ?links = "[(''Users'', 2), (''Users'', 3)] :: (string \<times> nat) list"
  let ?es = "[failing_execution, unasserted_execution]"
  let ?X = "\<lambda>r. cell_at (cells (done_sheets (reconcile ?wb ?links ?es) ! 0)) r 5"
  have h1: "distinct (map title (filter visible ?wb))" by code_simp
  have h2: "(0::nat) < length ?wb" by simp
  have h3: "visible (?wb ! 0)" by code_simp
  have h4: "placed (?wb ! 0) = (fst (placed users_sheet), 4, 5)" by code_simp
  have h5: "((title (?wb ! 0), 3), unasserted_execution) \<in> set (zip (linked_rows ?wb ?links) ?es)"
    by code_simp
  have h6: "((title (?wb ! 0), 2), failing_execution) \<in> set (zip (linked_rows ?wb ?links) ?es)"
    by code_simp
  have e1: "assertions unasserted_execution = []" by (simp add: unasserted_execution_def)
  have e2: "\<exists>x \<in> set (assertions failing_execution). error x \<noteq> None"
    by (simp add: failing_execution_def)
  note P = reconciled_verdict[OF h1 h2 h3 h4 h5]
  note F = reconciled_verdict[OF h1 h2 h3 h4 h6]
  from P[THEN conjunct1, THEN mp, OF e1]
  have a: "?X 3 = \<lparr>cvalue = CStr ''PASSED'', cfill = Some GREEN\<rparr>"
    by (cases "?X 3") simp
  from F[THEN conjunct2, THEN conjunct1, THEN iffD2, OF e2]
  have fv: "cvalue (?X 2) = CStr ''FAILED''" .
  from F[THEN conjunct2, THEN conjunct2, THEN conjunct1, THEN mp, OF fv]
  have ff: "cfill (?X 2) = Some RED" .
  from fv ff have b: "?X 2 = \<lparr>cvalue = CStr ''FAILED'', cfill = Some RED\<rparr>"
    by (cases "?X 2") simp
  show ?thesis
    by (rule conjI[OF h1 conjI[OF h2 conjI[OF h3 conjI[OF h4 conjI[OF h5 conjI[OF h6
          conjI[OF e1 conjI[OF a b]]]]]]]])
qed


section \<open>The identifier recorded for a failed row\<close>

text \<open>
  C8. The claim: a failed row is recorded under the value of its ID cell whenever the sheet
  has an ID column and the cell is not blank, also when the ID column lies to the right of
  the expected-status column and the result columns are inserted in the same pass. The
  program looks the ID column up before it inserts the result columns and does not look it
  up again (line 553 does so for \<open>status_idx\<close>). On \<open>users_sheet\<close> the ID column is
  column 4, the two result columns are inserted at columns 4 and 5, and the failed row is
  recorded under the text of its ActualStatus cell, \<open>500\<close>, instead of \<open>TC-1\<close>. With the
  ID column to the left of the expected-status column the same row is recorded as \<open>TC-1\<close>.
\<close>

theorem failure_identifier_stale_id_column:
  "id_column (cells users_sheet) = Some 4
   \<and> expected_column (cells users_sheet) = Some 3
   \<and> cvalue (cell_at (cells users_sheet) 2 4) = CStr ''TC-1''
   \<and> result_of (assertions failing_execution) = ''FAILED''
   \<and> rs_failed (reconcile [users_sheet] [(''Users'', 2)] [failing_execution]) = [''500'']
   \<and> rs_failed (reconcile [ids_first_sheet] [(''Users'', 2)] [failing_execution]) = [''TC-1'']"
  by code_simp

section \<open>Placement of the result columns\<close>

lemma length_le_max_column: "row \<in> set g \<Longrightarrow> length row \<le> max_column g"
  unfolding max_column_def by (induction g) auto

lemma max_column_ge_1: "1 \<le> max_column g"
  unfolding max_column_def by (induction g) auto

lemma cell_at_beyond: "max_column g < c \<Longrightarrow> cell_at g r c = empty_cell"
proof (cases "1 \<le> r \<and> r \<le> length g")
  case True
  then have "r - 1 < length g" by arith
  then have "g ! (r - 1) \<in> set g" by (rule nth_mem)
  then have "length (g ! (r - 1)) \<le> max_column g" by (rule length_le_max_column)
  moreover assume "max_column g < c"
  ultimately show ?thesis by (simp add: cell_at_def)
next
  case False
  then show ?thesis by (auto simp: cell_at_def)
qed

lemma cell_at_zero: "cell_at g r 0 = empty_cell"
  by (simp add: cell_at_def)

lemma labelled_within:
  assumes "cvalue (cell_at g r c) = CStr name"
  shows "1 \<le> c \<and> c \<le> max_column g"
proof -
  have ne: "cell_at g r c \<noteq> empty_cell" using assms by (auto simp: empty_cell_def)
  have "\<not> max_column g < c"
  proof
    assume "max_column g < c"
    then have "cell_at g r c = empty_cell" by (rule cell_at_beyond)
    with ne show False by simp
  qed
  moreover have "c \<noteq> 0"
  proof
    assume "c = 0"
    then have "cell_at g r c = empty_cell" by (simp add: cell_at_zero)
    with ne show False by simp
  qed
  ultimately show ?thesis by arith
qed

lemma find_col_eqI:
  assumes v: "cvalue (cell_at g 1 i) = CStr name"
    and first: "\<forall>j. 1 \<le> j \<and> j < i \<longrightarrow> cvalue (cell_at g 1 j) \<noteq> CStr name"
  shows "find_col g name = Some i"
proof (cases "find_col g name")
  case None
  from labelled_within[OF v] have "1 \<le> i" "i \<le> max_column g" by simp_all
  from find_col_None[OF None this] v show ?thesis by simp
next
  case (Some k)
  from find_col_Some[OF Some] have k: "1 \<le> k" "cvalue (cell_at g 1 k) = CStr name"
    "\<forall>j. 1 \<le> j \<and> j < k \<longrightarrow> cvalue (cell_at g 1 j) \<noteq> CStr name" by simp_all
  from labelled_within[OF v] have i: "1 \<le> i" by simp
  have "\<not> k < i" using first k(1,2) by blast
  moreover have "\<not> i < k" using k(3) i v by blast
  ultimately show ?thesis using Some by simp
qed

lemma find_col_exists:
  assumes "cvalue (cell_at g 1 i) = CStr name"
  shows "find_col g name \<noteq> None"
proof
  assume "find_col g name = None"
  from find_col_None[OF this] labelled_within[OF assms] assms show False by blast
qed

lemma in_row_insert:
  assumes "1 \<le> idx"
  shows "in_row (if idx - 1 < length row
                 then take (idx - 1) row @ replicate n empty_cell @ drop (idx - 1) row
                 else row) c
           = (if c < idx then in_row row c
              else if c < idx + n then empty_cell
              else in_row row (c - n))"
proof (cases "idx - 1 < length row")
  case False
  then show ?thesis using assms by (auto simp: in_row_def)
next
  case True
  show ?thesis
  proof (cases "c < idx")
    case c: True
    then show ?thesis using True assms by (auto simp: in_row_def nth_append)
  next
    case c: False
    show ?thesis
    proof (cases "c < idx + n")
      case True
      with c \<open>idx - 1 < length row\<close> assms show ?thesis
        by (auto simp: in_row_def nth_append)
    next
      case False
      have e: "c - 1 - (idx - 1) - n + (idx - 1) = c - n - 1" using False c assms by arith
      with False c \<open>idx - 1 < length row\<close> assms show ?thesis
        by (auto simp: in_row_def nth_append)
    qed
  qed
qed

lemma row_at_map:
  "row_at (map f g) r = (if 1 \<le> r \<and> r \<le> length g then f (row_at g r) else [])"
  by (auto simp: row_at_def)

lemma in_row_Nil: "in_row [] c = empty_cell"
  by (auto simp: in_row_def)

lemma cell_at_insert_cols:
  assumes "1 \<le> idx"
  shows "cell_at (insert_cols g idx n) r c
           = (if c < idx then cell_at g r c
              else if c < idx + n then empty_cell
              else cell_at g r (c - n))"
proof (cases "1 \<le> r \<and> r \<le> length g")
  case True
  then show ?thesis
    unfolding cell_at_row insert_cols_def row_at_map
    using in_row_insert[OF assms, of "row_at g r" n c] by simp
next
  case False
  then have a: "row_at g r = []" by (auto simp: row_at_def)
  from False have b: "row_at (insert_cols g idx n) r = []"
    unfolding insert_cols_def row_at_map by auto
  show ?thesis
    unfolding cell_at_row a b by (simp add: in_row_Nil)
qed

lemma cell_at_label_column:
  assumes "1 \<le> c"
  shows "cell_at (label_column g c name) r' c'
           = (if r' = 1 \<and> c' = c then (cell_at g 1 c)\<lparr>cvalue := CStr name\<rparr> else cell_at g r' c')"
  using assms by (simp add: label_column_def cell_at_set_value)

lemma both_found_unchanged:
  "find_col g ''ActualStatus'' = Some a0 \<Longrightarrow> find_col g ''Status'' = Some s0 \<Longrightarrow>
     place_columns g e = (g, a0, s0)"
  by (simp add: place_columns_def Let_def split: option.splits)

lemma status_shifted:
  assumes s0: "find_col g ''Status'' = Some s0"
  shows "find_col (label_column (insert_cols g (ei + 1) 1) (ei + 1) ''ActualStatus'') ''Status''
           = Some (if s0 \<le> ei then s0 else s0 + 1)"
proof (rule find_col_eqI)
  let ?g2 = "label_column (insert_cols g (ei + 1) 1) (ei + 1) ''ActualStatus''"
  let ?s = "if s0 \<le> ei then s0 else s0 + 1"
  from find_col_Some[OF s0] have s1: "1 \<le> s0" and sv: "cvalue (cell_at g 1 s0) = CStr ''Status''"
    and sf: "\<forall>j. 1 \<le> j \<and> j < s0 \<longrightarrow> cvalue (cell_at g 1 j) \<noteq> CStr ''Status''" by simp_all
  have c: "cell_at ?g2 1 j = (if j = ei + 1 then (cell_at (insert_cols g (ei + 1) 1) 1 (ei + 1))\<lparr>cvalue := CStr ''ActualStatus''\<rparr>
                             else if j < ei + 1 then cell_at g 1 j else cell_at g 1 (j - 1))" for j
    by (simp add: cell_at_label_column cell_at_insert_cols)
  show "cvalue (cell_at ?g2 1 ?s) = CStr ''Status''"
    unfolding c using sv by simp
  show "\<forall>j. 1 \<le> j \<and> j < ?s \<longrightarrow> cvalue (cell_at ?g2 1 j) \<noteq> CStr ''Status''"
  proof (intro allI impI)
    fix j assume j: "1 \<le> j \<and> j < ?s"
    show "cvalue (cell_at ?g2 1 j) \<noteq> CStr ''Status''"
    proof (cases "j = ei + 1")
      case True
      then show ?thesis unfolding c by simp
    next
      case False
      show ?thesis
      proof (cases "j < ei + 1")
        case True
        with j have "1 \<le> j \<and> j < s0" by (auto split: if_splits)
        with sf have "cvalue (cell_at g 1 j) \<noteq> CStr ''Status''" by blast
        with True False show ?thesis unfolding c by simp
      next
        case big: False
        with False j have "1 \<le> j - 1 \<and> j - 1 < s0" by (auto split: if_splits)
        with sf have "cvalue (cell_at g 1 (j - 1)) \<noteq> CStr ''Status''" by blast
        with big False show ?thesis unfolding c by simp
      qed
    qed
  qed
qed

lemma place_actual_missing:
  assumes "find_col g ''ActualStatus'' = None" and s0: "find_col g ''Status'' = Some s0"
  shows "place_columns g (Some ei)
           = (label_column (insert_cols g (ei + 1) 1) (ei + 1) ''ActualStatus'', ei + 1,
              if s0 \<le> ei then s0 else s0 + 1)"
  using assms(1) s0 status_shifted[OF s0, of ei]
  by (simp add: place_columns_def Let_def)

lemma place_status_missing:
  assumes a0: "find_col g ''ActualStatus'' = Some a0" and "find_col g ''Status'' = None"
  shows "place_columns g (Some ei)
           = (label_column (insert_cols g (a0 + 1) 1) (a0 + 1) ''Status'', a0, a0 + 1)"
proof -
  from find_col_Some[OF a0] have "a0 \<noteq> 0" by simp
  then show ?thesis using assms by (simp add: place_columns_def Let_def)
qed

lemma place_both_missing:
  assumes "find_col g ''ActualStatus'' = None" and "find_col g ''Status'' = None"
  shows "place_columns g (Some ei)
           = (label_column (label_column (insert_cols g (ei + 1) 2) (ei + 1) ''ActualStatus'')
                (ei + 2) ''Status'', ei + 1, ei + 2)"
  using assms by (simp add: place_columns_def Let_def)

lemma place_no_expected:
  "place_columns g None =
     (case (find_col g ''ActualStatus'', find_col g ''Status'') of
        (None, None) \<Rightarrow>
          (label_column (label_column g (max_column g + 1) ''ActualStatus'')
             (max_column g + 2) ''Status'', max_column g + 1, max_column g + 2)
      | (None, Some s0) \<Rightarrow>
          (label_column g (max_column g + 1) ''ActualStatus'', max_column g + 1, s0)
      | (Some a0, None) \<Rightarrow> (label_column g (max_column g + 1) ''Status'', a0, max_column g + 1)
      | (Some a0, Some s0) \<Rightarrow> (g, a0, s0))"
  by (simp add: place_columns_def Let_def split: option.splits)

lemma place_columns_labels:
  assumes "place_columns g e = (g', a, s)"
  shows "cvalue (cell_at g' 1 a) = CStr ''ActualStatus'' \<and> cvalue (cell_at g' 1 s) = CStr ''Status''"
proof (cases "find_col g ''ActualStatus''")
  case aN: None
  show ?thesis
  proof (cases "find_col g ''Status''")
    case sN: None
    show ?thesis
    proof (cases e)
      case None
      with assms aN sN show ?thesis
        by (auto simp: place_no_expected cell_at_label_column)
    next
      case (Some ei)
      with assms aN sN show ?thesis
        by (auto simp: place_both_missing cell_at_label_column)
    qed
  next
    case sS: (Some s0)
    from find_col_Some[OF sS] have s0: "s0 \<le> max_column g" "cvalue (cell_at g 1 s0) = CStr ''Status''"
      by simp_all
    show ?thesis
    proof (cases e)
      case None
      with assms aN sS s0 show ?thesis
        by (auto simp: place_no_expected cell_at_label_column)
    next
      case (Some ei)
      have "cvalue (cell_at (label_column (insert_cols g (ei + 1) 1) (ei + 1) ''ActualStatus'') 1
                      (if s0 \<le> ei then s0 else s0 + 1)) = CStr ''Status''"
        using find_col_Some[OF status_shifted[OF sS, of ei]] by simp
      with assms aN sS Some show ?thesis
        by (auto simp: place_actual_missing cell_at_label_column)
    qed
  qed
next
  case aS: (Some a0)
  from find_col_Some[OF aS] have a0: "1 \<le> a0" "a0 \<le> max_column g"
    "cvalue (cell_at g 1 a0) = CStr ''ActualStatus''" by simp_all
  show ?thesis
  proof (cases "find_col g ''Status''")
    case sN: None
    show ?thesis
    proof (cases e)
      case None
      with assms aS sN a0 show ?thesis
        by (auto simp: place_no_expected cell_at_label_column)
    next
      case (Some ei)
      with assms aS sN a0 show ?thesis
        by (auto simp: place_status_missing cell_at_label_column cell_at_insert_cols)
    qed
  next
    case sS: (Some s0)
    from find_col_Some[OF sS] have "cvalue (cell_at g 1 s0) = CStr ''Status''" by simp
    with assms aS sS a0 show ?thesis by (simp add: both_found_unchanged)
  qed
qed

lemma place_columns_idempotent:
  "fst (place_columns (fst (place_columns g e)) e') = fst (place_columns g e)"
proof -
  obtain g' a s where p: "place_columns g e = (g', a, s)" by (cases "place_columns g e") auto
  from place_columns_labels[OF p]
  have la: "cvalue (cell_at g' 1 a) = CStr ''ActualStatus''"
    and ls: "cvalue (cell_at g' 1 s) = CStr ''Status''" by simp_all
  have "find_col g' ''ActualStatus'' \<noteq> None" and "find_col g' ''Status'' \<noteq> None"
    using find_col_exists[OF la] find_col_exists[OF ls] by simp_all
  then obtain a1 s1 where "find_col g' ''ActualStatus'' = Some a1" "find_col g' ''Status'' = Some s1"
    by auto
  then have "place_columns g' e' = (g', a1, s1)" by (rule both_found_unchanged)
  then show ?thesis by (simp add: p)
qed

text \<open>
  C6, as the program does it. When both an \<open>ActualStatus\<close> and a \<open>Status\<close> header cell
  exist the sheet is left as it is, and a second placement never changes the sheet the
  first one produced. When an expected-status column resolves and only \<open>ActualStatus\<close> is
  missing, one column is inserted immediately after the expected-status column; when only
  \<open>Status\<close> is missing, one column is inserted immediately after the \<open>ActualStatus\<close>
  column. When no expected-status column resolves, the missing columns are labelled
  immediately right of the sheet's last column.
\<close>

theorem result_column_placement:
  "(find_col g ''ActualStatus'' \<noteq> None \<and> find_col g ''Status'' \<noteq> None \<longrightarrow>
      fst (place_columns g e) = g)
   \<and> fst (place_columns (fst (place_columns g e)) e') = fst (place_columns g e)
   \<and> (expected_column g = Some ei \<and> find_col g ''ActualStatus'' = None
        \<and> find_col g ''Status'' = Some s0 \<longrightarrow>
      place_columns g (expected_column g)
        = (label_column (insert_cols g (ei + 1) 1) (ei + 1) ''ActualStatus'', ei + 1,
           if s0 \<le> ei then s0 else s0 + 1))
   \<and> (expected_column g = Some ei \<and> find_col g ''ActualStatus'' = Some a0
        \<and> find_col g ''Status'' = None \<longrightarrow>
      place_columns g (expected_column g)
        = (label_column (insert_cols g (a0 + 1) 1) (a0 + 1) ''Status'', a0, a0 + 1))
   \<and> (expected_column g = None \<and> find_col g ''ActualStatus'' = None
        \<and> find_col g ''Status'' = None \<longrightarrow>
      place_columns g (expected_column g)
        = (label_column (label_column g (max_column g + 1) ''ActualStatus'')
             (max_column g + 2) ''Status'', max_column g + 1, max_column g + 2))
   \<and> (expected_column g = None \<and> find_col g ''ActualStatus'' = Some a0
        \<and> find_col g ''Status'' = None \<longrightarrow>
      place_columns g (expected_column g)
        = (label_column g (max_column g + 1) ''Status'', a0, max_column g + 1))"
proof -
  have p1: "fst (place_columns g e) = g"
    if "find_col g ''ActualStatus'' \<noteq> None \<and> find_col g ''Status'' \<noteq> None"
  proof -
    from that obtain a1 s1 where "find_col g ''ActualStatus'' = Some a1" "find_col g ''Status'' = Some s1"
      by auto
    then have "place_columns g e = (g, a1, s1)" by (rule both_found_unchanged)
    then show ?thesis by simp
  qed
  have p2: "fst (place_columns (fst (place_columns g e)) e') = fst (place_columns g e)"
    by (rule place_columns_idempotent)
  have p3: "place_columns g (expected_column g)
        = (label_column (insert_cols g (ei + 1) 1) (ei + 1) ''ActualStatus'', ei + 1,
           if s0 \<le> ei then s0 else s0 + 1)"
    if "expected_column g = Some ei \<and> find_col g ''ActualStatus'' = None
        \<and> find_col g ''Status'' = Some s0"
    using that place_actual_missing[of g s0 ei] by simp
  have p4: "place_columns g (expected_column g)
        = (label_column (insert_cols g (a0 + 1) 1) (a0 + 1) ''Status'', a0, a0 + 1)"
    if "expected_column g = Some ei \<and> find_col g ''ActualStatus'' = Some a0
        \<and> find_col g ''Status'' = None"
    using that place_status_missing[of g a0 ei] by simp
  have p5: "place_columns g (expected_column g)
        = (label_column (label_column g (max_column g + 1) ''ActualStatus'')
             (max_column g + 2) ''Status'', max_column g + 1, max_column g + 2)"
    if "expected_column g = None \<and> find_col g ''ActualStatus'' = None
        \<and> find_col g ''Status'' = None"
    using that by (simp add: place_no_expected)
  have p6: "place_columns g (expected_column g)
        = (label_column g (max_column g + 1) ''Status'', a0, max_column g + 1)"
    if "expected_column g = None \<and> find_col g ''ActualStatus'' = Some a0
        \<and> find_col g ''Status'' = None"
    using that by (simp add: place_no_expected)
  from p1 p2 p3 p4 p5 p6 show ?thesis by blast
qed

theorem result_column_placement_witness:
  "(find_col (header_only [''ExpectedStatus'', ''ActualStatus'', ''Status'']) ''ActualStatus'' \<noteq> None
    \<and> find_col (header_only [''ExpectedStatus'', ''ActualStatus'', ''Status'']) ''Status'' \<noteq> None
    \<and> fst (place_columns (header_only [''ExpectedStatus'', ''ActualStatus'', ''Status'']) (Some 1))
        = header_only [''ExpectedStatus'', ''ActualStatus'', ''Status''])
   \<and> (expected_column (header_only [''ExpectedStatus'', ''Status'', ''ID'']) = Some 1
    \<and> find_col (header_only [''ExpectedStatus'', ''Status'', ''ID'']) ''ActualStatus'' = None
    \<and> find_col (header_only [''ExpectedStatus'', ''Status'', ''ID'']) ''Status'' = Some 2
    \<and> place_columns (header_only [''ExpectedStatus'', ''Status'', ''ID''])
          (expected_column (header_only [''ExpectedStatus'', ''Status'', ''ID'']))
        = (header_only [''ExpectedStatus'', ''ActualStatus'', ''Status'', ''ID''], 2, 3))
   \<and> (expected_column (header_only [''ExpectedStatus'', ''ActualStatus'', ''ID'']) = Some 1
    \<and> find_col (header_only [''ExpectedStatus'', ''ActualStatus'', ''ID'']) ''ActualStatus'' = Some 2
    \<and> find_col (header_only [''ExpectedStatus'', ''ActualStatus'', ''ID'']) ''Status'' = None
    \<and> place_columns (header_only [''ExpectedStatus'', ''ActualStatus'', ''ID''])
          (expected_column (header_only [''ExpectedStatus'', ''ActualStatus'', ''ID'']))
        = (header_only [''ExpectedStatus'', ''ActualStatus'', ''Status'', ''ID''], 2, 3))
   \<and> (expected_column (header_only [''Name'', ''URL'']) = None
    \<and> find_col (header_only [''Name'', ''URL'']) ''ActualStatus'' = None
    \<and> find_col (header_only [''Name'', ''URL'']) ''Status'' = None
    \<and> place_columns (header_only [''Name'', ''URL'']) (expected_column (header_only [''Name'', ''URL'']))
        = (header_only [''Name'', ''URL'', ''ActualStatus'', ''Status''], 3, 4))
   \<and> (expected_column (header_only [''Name'', ''ActualStatus'', ''URL'']) = None
    \<and> find_col (header_only [''Name'', ''ActualStatus'', ''URL'']) ''ActualStatus'' = Some 2
    \<and> find_col (header_only [''Name'', ''ActualStatus'', ''URL'']) ''Status'' = None
    \<and> place_columns (header_only [''Name'', ''ActualStatus'', ''URL''])
          (expected_column (header_only [''Name'', ''ActualStatus'', ''URL'']))
        = (header_only [''Name'', ''ActualStatus'', ''URL'', ''Status''], 2, 4))"
proof -
  let ?G1 = "header_only [''ExpectedStatus'', ''ActualStatus'', ''Status'']"
  let ?G2 = "header_only [''ExpectedStatus'', ''Status'', ''ID'']"
  let ?G3 = "header_only [''ExpectedStatus'', ''ActualStatus'', ''ID'']"
  let ?G4 = "header_only [''Name'', ''URL'']"
  let ?G5 = "header_only [''Name'', ''ActualStatus'', ''URL'']"
  have h1: "find_col ?G1 ''ActualStatus'' \<noteq> None \<and> find_col ?G1 ''Status'' \<noteq> None"
    by code_simp
  from result_column_placement[of ?G1 "Some 1"] h1
  have c1: "fst (place_columns ?G1 (Some 1)) = ?G1" by blast
  have h2: "expected_column ?G2 = Some 1 \<and> find_col ?G2 ''ActualStatus'' = None
              \<and> find_col ?G2 ''Status'' = Some 2" by code_simp
  from result_column_placement[of ?G2 _ _ 1 2] h2
  have "place_columns ?G2 (expected_column ?G2)
          = (label_column (insert_cols ?G2 (1 + 1) 1) (1 + 1) ''ActualStatus'', 1 + 1,
             if (2::nat) \<le> 1 then 2 else 2 + 1)" by blast
  also have "(label_column (insert_cols ?G2 (1 + 1) 1) (1 + 1) ''ActualStatus'', 1 + 1,
             if (2::nat) \<le> 1 then 2 else 2 + 1)
          = (header_only [''ExpectedStatus'', ''ActualStatus'', ''Status'', ''ID''], 2::nat, 3::nat)"
    by code_simp
  finally have c2: "place_columns ?G2 (expected_column ?G2)
          = (header_only [''ExpectedStatus'', ''ActualStatus'', ''Status'', ''ID''], 2, 3)" .
  have h3: "expected_column ?G3 = Some 1 \<and> find_col ?G3 ''ActualStatus'' = Some 2
              \<and> find_col ?G3 ''Status'' = None" by code_simp
  from result_column_placement[of ?G3 _ _ 1 _ 2] h3
  have "place_columns ?G3 (expected_column ?G3)
          = (label_column (insert_cols ?G3 (2 + 1) 1) (2 + 1) ''Status'', 2, 2 + 1)" by blast
  also have "(label_column (insert_cols ?G3 (2 + 1) 1) (2 + 1) ''Status'', 2, 2 + 1)
          = (header_only [''ExpectedStatus'', ''ActualStatus'', ''Status'', ''ID''], 2::nat, 3::nat)"
    by code_simp
  finally have c3: "place_columns ?G3 (expected_column ?G3)
          = (header_only [''ExpectedStatus'', ''ActualStatus'', ''Status'', ''ID''], 2, 3)" .
  have h4: "expected_column ?G4 = None \<and> find_col ?G4 ''ActualStatus'' = None
              \<and> find_col ?G4 ''Status'' = None" by code_simp
  from result_column_placement[of ?G4] h4
  have "place_columns ?G4 (expected_column ?G4)
        = (label_column (label_column ?G4 (max_column ?G4 + 1) ''ActualStatus'')
             (max_column ?G4 + 2) ''Status'', max_column ?G4 + 1, max_column ?G4 + 2)" by blast
  also have "(label_column (label_column ?G4 (max_column ?G4 + 1) ''ActualStatus'')
             (max_column ?G4 + 2) ''Status'', max_column ?G4 + 1, max_column ?G4 + 2)
          = (header_only [''Name'', ''URL'', ''ActualStatus'', ''Status''], 3::nat, 4::nat)"
    by code_simp
  finally have c4: "place_columns ?G4 (expected_column ?G4)
          = (header_only [''Name'', ''URL'', ''ActualStatus'', ''Status''], 3, 4)" .
  have h5: "expected_column ?G5 = None \<and> find_col ?G5 ''ActualStatus'' = Some 2
              \<and> find_col ?G5 ''Status'' = None" by code_simp
  from result_column_placement[of ?G5 _ _ _ _ 2] h5
  have "place_columns ?G5 (expected_column ?G5)
        = (label_column ?G5 (max_column ?G5 + 1) ''Status'', 2, max_column ?G5 + 1)" by blast
  also have "(label_column ?G5 (max_column ?G5 + 1) ''Status'', 2::nat, max_column ?G5 + 1)
          = (header_only [''Name'', ''ActualStatus'', ''URL'', ''Status''], 2::nat, 4::nat)"
    by code_simp
  finally have c5: "place_columns ?G5 (expected_column ?G5)
          = (header_only [''Name'', ''ActualStatus'', ''URL'', ''Status''], 2, 4)" .
  from h1 c1 h2 c2 h3 c3 h4 c4 h5 c5 show ?thesis by blast
qed

text \<open>
  C6 as stated says that a single missing column is inserted adjacent to the result column
  that exists. With a column between the expected-status column and an existing \<open>Status\<close>
  column, the new \<open>ActualStatus\<close> column is column 2 and \<open>Status\<close> ends at column 4.
\<close>

theorem inserted_column_not_adjacent_counterexample:
  "find_col (header_only [''ExpectedStatus'', ''Notes'', ''Status'']) ''ActualStatus'' = None
   \<and> find_col (header_only [''ExpectedStatus'', ''Notes'', ''Status'']) ''Status'' = Some 3
   \<and> place_columns (header_only [''ExpectedStatus'', ''Notes'', ''Status''])
        (expected_column (header_only [''ExpectedStatus'', ''Notes'', ''Status'']))
      = (header_only [''ExpectedStatus'', ''ActualStatus'', ''Notes'', ''Status''], 2, 4)"
  by code_simp

lemma preamble_count: "count_list preamble valid_json_test = 1"
  by (simp add: preamble_def valid_json_test_def not_null_line_def)

lemma preamble_nth: "preamble ! 6 = valid_json_test"
  by (simp add: preamble_def)

lemma title_line_eq:
  "''pm.test('' @ [CHR 0x27] @ t @ ''', function () {'' = valid_json_test
     \<longleftrightarrow> t = ''Response is valid JSON''"
proof -
  have e: "valid_json_test = ''pm.test('' @ [CHR 0x27] @ ''Response is valid JSON'' @ ''', function () {''"
    by (simp add: valid_json_test_def)
  show ?thesis
    unfolding e by (simp only: same_append_eq append_same_eq)
qed

lemma status_lines_no_json: "valid_json_test \<notin> set (status_lines es)"
proof (cases es)
  case None
  then show ?thesis by (simp add: status_lines_def)
next
  case (Some n)
  define l1 where "l1 = ''pm.test('Status code is '' @ str_int n @ ''', function () {''"
  define l2 where "l2 = ''    pm.response.to.have.status('' @ str_int n @ '');''"
  define l3 :: string where "l3 = ''});''"
  have a: "l1 \<noteq> valid_json_test"
  proof
    assume "l1 = valid_json_test"
    then have "take 10 l1 = take 10 valid_json_test" by (rule arg_cong)
    then show False by (simp add: l1_def valid_json_test_def)
  qed
  have b: "l2 \<noteq> valid_json_test"
    by (simp add: l2_def valid_json_test_def)
  have c: "l3 \<noteq> valid_json_test"
    by (simp add: l3_def valid_json_test_def)
  have "status_lines es = [l1, l2, l3]"
    unfolding Some status_lines_def l1_def l2_def l3_def by (simp only: option.case)
  then have "set (status_lines es) = {l1, l2, l3}" by simp
  with a b c show ?thesis by simp
qed

lemma test_block_no_json:
  assumes "c \<in> set t" and "c \<notin> set ''Response is valid JSON''"
  shows "valid_json_test \<notin> set (test_block t v chk)"
proof -
  define l1 where "l1 = ''pm.test('' @ [CHR 0x27] @ t @ ''', function () {''"
  define l3 where "l3 = ''    pm.expect('' @ v @ '')'' @ chk @ '';''"
  define l4 :: string where "l4 = ''});''"
  have "t \<noteq> ''Response is valid JSON''"
  proof
    assume "t = ''Response is valid JSON''"
    with assms(1) have "c \<in> set ''Response is valid JSON''" by (simp only:)
    with assms(2) show False ..
  qed
  then have a: "l1 \<noteq> valid_json_test"
    unfolding l1_def by (simp only: title_line_eq not_False_eq_True)
  have b: "not_null_line \<noteq> valid_json_test"
    by (simp add: not_null_line_def valid_json_test_def)
  have c: "l3 \<noteq> valid_json_test"
    by (simp add: l3_def valid_json_test_def)
  have d: "l4 \<noteq> valid_json_test"
    by (simp add: l4_def valid_json_test_def)
  have "test_block t v chk = [l1, not_null_line, l3, l4]"
    unfolding test_block_def l1_def l3_def l4_def ..
  then have "set (test_block t v chk) = {l1, not_null_line, l3, l4}" by simp
  with a b c d show ?thesis by simp
qed

lemma operator_lines_no_json: "valid_json_test \<notin> set (operator_lines field value_expr op expected)"
proof -
  have eq: "valid_json_test \<notin> set (test_block (field @ '' equals '' @ x) v c)" for x v c
    by (rule test_block_no_json[of "CHR ''q''"]) simp_all
  have ne: "valid_json_test \<notin> set (test_block (field @ '' not equals '' @ x) v c)" for x v c
    by (rule test_block_no_json[of "CHR ''q''"]) simp_all
  have em: "valid_json_test \<notin> set (test_block (field @ '' is not empty'') v c)" for v c
    by (rule test_block_no_json[of "CHR ''m''"]) simp_all
  have ge: "valid_json_test \<notin> set (test_block (field @ '' >= '' @ x) v c)" for x v c
    by (rule test_block_no_json[of "CHR ''>''"]) simp_all
  have gt: "valid_json_test \<notin> set (test_block (field @ '' > '' @ x) v c)" for x v c
    by (rule test_block_no_json[of "CHR ''>''"]) simp_all
  have le: "valid_json_test \<notin> set (test_block (field @ '' <= '' @ x) v c)" for x v c
    by (rule test_block_no_json[of "CHR ''<''"]) simp_all
  have lt: "valid_json_test \<notin> set (test_block (field @ '' < '' @ x) v c)" for x v c
    by (rule test_block_no_json[of "CHR ''<''"]) simp_all
  have co: "valid_json_test \<notin> set (test_block (field @ '' contains '' @ x) v c)" for x v c
    by (rule test_block_no_json[of "CHR ''c''"]) simp_all
  have tr: "valid_json_test \<notin> set (test_block (field @ '' is true'') v c)" for v c
    by (rule test_block_no_json[of "CHR ''t''"]) simp_all
  have fa: "valid_json_test \<notin> set (test_block (field @ '' is false'') v c)" for v c
    by (rule test_block_no_json[of "CHR ''f''"]) simp_all
  have ex: "valid_json_test \<notin> set (test_block (field @ '' exists'') v c)" for v c
    by (rule test_block_no_json[of "CHR ''x''"]) simp_all
  have nil: "valid_json_test \<notin> set []" by simp
  have branch: "x \<notin> set xs \<Longrightarrow> x \<notin> set ys \<Longrightarrow> x \<notin> set (if b then xs else ys)"
    for x :: string and xs ys b
    by simp
  show ?thesis
    unfolding operator_lines_def Let_def
    by (intro branch eq ne em ge gt le lt co tr fa ex nil)
qed

lemma field_lines_no_json: "valid_json_test \<notin> set (field_lines fc)"
proof (cases "jitems (snd fc)")
  case None
  then show ?thesis by (simp add: field_lines_def)
next
  case (Some conditions)
  have "valid_json_test \<notin> set (concat (map (\<lambda>(op, expected). operator_lines f v op expected) conditions))"
    for f v
    by (induction conditions) (auto simp: operator_lines_no_json)
  then show ?thesis using Some by (simp add: field_lines_def)
qed

lemma fields_no_json: "valid_json_test \<notin> set (concat (map field_lines assertions_dict))"
  by (induction assertions_dict) (simp_all add: field_lines_no_json)

lemma script_lines_nonempty:
  "assertions_dict \<noteq> [] \<Longrightarrow>
     script_lines es assertions_dict
       = status_lines es @ preamble @ concat (map field_lines assertions_dict)"
  by (simp add: script_lines_def build_assertion_tests_def)

lemma script_lines_empty: "script_lines es [] = status_lines es"
  by (simp add: script_lines_def)

lemma count_zero: "x \<notin> set xs \<Longrightarrow> count_list xs x = 0"
  by (simp add: count_list_0_iff)

lemma script_count:
  "count_list (script_lines es assertions_dict) valid_json_test
     = (if assertions_dict = [] then 0 else 1)"
proof (cases "assertions_dict = []")
  case True
  then show ?thesis
    by (simp add: script_lines_empty count_zero[OF status_lines_no_json])
next
  case False
  have "count_list (script_lines es assertions_dict) valid_json_test
          = count_list (status_lines es) valid_json_test
            + (count_list preamble valid_json_test
               + count_list (concat (map field_lines assertions_dict)) valid_json_test)"
    by (simp only: script_lines_nonempty[OF False] count_list_append)
  also have "\<dots> = 0 + (1 + 0)"
    by (simp only: preamble_count count_zero[OF status_lines_no_json] count_zero[OF fields_no_json])
  finally show ?thesis using False by simp
qed

lemma process_row_compiled:
  assumes "process_row ov l cols t st row = Inr (st', Some (fname, it))"
  shows "test_script it = script_lines (safe_int (get_cell row (idx_expected cols)))
                            (parse_assertions (lib_json_loads l) (get_cell row (idx_assertions cols)))"
  using assms
  by (auto simp: process_row_def Let_def split: if_splits option.splits)

section \<open>The validity check in the test script\<close>

text \<open>
  C2, as the program does it. The script of a compiled request is the status assertion (when
  an expected status is present) followed, only when the assertion specification is a
  non-empty mapping, by the output of \<open>_build_assertion_tests\<close>. In that case the script
  contains the \<open>Response is valid JSON\<close> check exactly once; it is the seventh line of the
  preamble, so it stands after the status assertion and before every field assertion.
  Without an assertion specification the script is the status assertion alone and contains
  no such check.
\<close>

theorem valid_json_check_in_script:
  assumes "process_row ov l cols t st row = Inr (st', Some (fname, it))"
  shows "(parse_assertions (lib_json_loads l) (get_cell row (idx_assertions cols)) \<noteq> [] \<longrightarrow>
            test_script it
              = status_lines (safe_int (get_cell row (idx_expected cols))) @ preamble
                @ concat (map field_lines (parse_assertions (lib_json_loads l) (get_cell row (idx_assertions cols))))
          \<and> count_list (test_script it) valid_json_test = 1)
       \<and> (parse_assertions (lib_json_loads l) (get_cell row (idx_assertions cols)) = [] \<longrightarrow>
            test_script it = status_lines (safe_int (get_cell row (idx_expected cols)))
          \<and> count_list (test_script it) valid_json_test = 0)
       \<and> preamble ! 6 = valid_json_test
       \<and> count_list preamble valid_json_test = 1
       \<and> valid_json_test \<notin> set (status_lines (safe_int (get_cell row (idx_expected cols))))
       \<and> valid_json_test \<notin> set (concat (map field_lines
                                  (parse_assertions (lib_json_loads l) (get_cell row (idx_assertions cols)))))"
proof -
  let ?es = "safe_int (get_cell row (idx_expected cols))"
  let ?ad = "parse_assertions (lib_json_loads l) (get_cell row (idx_assertions cols))"
  have ts: "test_script it = script_lines ?es ?ad"
    using assms by (rule process_row_compiled)
  have a: "test_script it = status_lines ?es @ preamble @ concat (map field_lines ?ad)
           \<and> count_list (test_script it) valid_json_test = 1" if "?ad \<noteq> []"
    unfolding ts using that script_count[of ?es ?ad] by (simp add: script_lines_nonempty)
  have b: "test_script it = status_lines ?es \<and> count_list (test_script it) valid_json_test = 0"
    if "?ad = []"
    unfolding ts using that script_count[of ?es ?ad] by (simp add: script_lines_empty)
  from a b preamble_nth preamble_count status_lines_no_json[of ?es] fields_no_json[of ?ad]
  show ?thesis by simp
qed

theorem valid_json_check_in_script_witness:
  "process_row None assertion_library asserting_columns ''Health'' (initial_sticky ''Health'')
      (row_values (cells asserting_sheet) 2)
    = Inr ((initial_sticky ''Health'')\<lparr>last_raw_url := Some ''http://api.test/ping'',
             last_name := CStr ''ping''\<rparr>,
           Some (CStr ''Health'',
             \<lparr>req_name = ''ping'', req_method = ''GET'', req_url = ''http://api.test/ping'',
              req_query = [], test_script = script_lines (Some 200) status_eq_ok\<rparr>))
   \<and> parse_assertions (lib_json_loads assertion_library)
         (get_cell (row_values (cells asserting_sheet) 2) (idx_assertions asserting_columns)) \<noteq> []
   \<and> count_list (script_lines (Some 200) status_eq_ok) valid_json_test = 1"
proof -
  let ?row = "row_values (cells asserting_sheet) 2"
  let ?it = "\<lparr>req_name = ''ping'', req_method = ''GET'', req_url = ''http://api.test/ping'',
              req_query = [], test_script = script_lines (Some 200) status_eq_ok\<rparr>"
  have h: "process_row None assertion_library asserting_columns ''Health'' (initial_sticky ''Health'') ?row
             = Inr ((initial_sticky ''Health'')\<lparr>last_raw_url := Some ''http://api.test/ping'',
                      last_name := CStr ''ping''\<rparr>, Some (CStr ''Health'', ?it))"
    by code_simp
  have ne: "parse_assertions (lib_json_loads assertion_library) (get_cell ?row (idx_assertions asserting_columns)) \<noteq> []"
    by code_simp
  from valid_json_check_in_script[OF h] ne
  have "count_list (test_script ?it) valid_json_test = 1" by simp
  then have "count_list (script_lines (Some 200) status_eq_ok) valid_json_test = 1" by simp
  with h ne show ?thesis by simp
qed

text \<open>
  C2 as stated says that the check is emitted for every compiled request and before the
  status assertion. The rows of \<open>users_sheet\<close> have an expected status and no assertion
  specification: their scripts are the three status lines. The row of \<open>asserting_sheet\<close>
  has both: the status test is line 0 of its script and the validity check is line 9.
\<close>

theorem valid_json_check_counterexample:
  "map_sum id (\<lambda>gs. map test_script (flat_requests (folders gs)))
       (compile_workbook None plain_library [users_sheet])
     = Inr [status_lines (Some 200), status_lines (Some 200)]
   \<and> count_list (status_lines (Some 200)) valid_json_test = 0
   \<and> map_sum id (\<lambda>gs. map test_script (flat_requests (folders gs)))
       (compile_workbook None assertion_library [asserting_sheet])
     = Inr [script_lines (Some 200) status_eq_ok]
   \<and> script_lines (Some 200) status_eq_ok ! 0 = ''pm.test('Status code is 200', function () {''
   \<and> script_lines (Some 200) status_eq_ok ! 9 = valid_json_test"
  by code_simp

section \<open>Order of the linkage and order of the collection\<close>

text \<open>
  C1. The claim: the (sheet, row) pairs of the linkage stand in the order of the flat list
  of compiled requests, folder by folder, also when consecutive rows belong to different
  folders. The program appends the linkage in row order (line 475) and the requests to
  their folder (line 473), so rows that alternate between folders come out in different
  orders: on \<open>interleaved_sheet\<close> the linkage is rows 2, 3, 4 while the collection lists the
  requests of rows 2, 4, 3. The reconciler walks the rows (line 572) against the runner's
  executions, so row 3 (\<open>list orders\<close>) receives the execution of \<open>delete user\<close>.
\<close>

theorem linkage_order_interleaved_folders:
  "map_sum id row_links (compile_workbook None plain_library [interleaved_sheet])
     = Inr [(''Api'', 2), (''Api'', 3), (''Api'', 4)]
   \<and> map_sum id (\<lambda>gs. map req_name (flat_requests (folders gs)))
       (compile_workbook None plain_library [interleaved_sheet])
     = Inr [''create user'', ''delete user'', ''list orders'']
   \<and> map (\<lambda>r. py_str (cvalue (cell_at (cells interleaved_sheet) r 1))) [2, 3, 4]
     = [''create user'', ''list orders'', ''delete user'']
   \<and> map_sum id (\<lambda>gs. map (\<lambda>(p, e). (p, item_name e))
         (rs_written (reconcile [interleaved_sheet] (row_links gs)
            executions_in_collection_order)))
       (compile_workbook None plain_library [interleaved_sheet])
     = Inr [((''Api'', 2), Some ''create user''), ((''Api'', 3), Some ''delete user''),
            ((''Api'', 4), Some ''list orders'')]"
  by code_simp

section \<open>Facts about dictionaries\<close>

lemma keys_dict_set_present:
  "k \<in> fst ` set d \<Longrightarrow> map fst (dict_set k v d) = map fst d"
proof (induction d)
  case Nil
  then show ?case by simp
next
  case (Cons p d)
  obtain a b where p: "p = (a, b)" by (cases p)
  show ?case
  proof (cases "a = k")
    case True
    then show ?thesis by (simp add: p)
  next
    case False
    with Cons.prems p have "k \<in> fst ` set d" by auto
    then show ?thesis using False Cons.IH by (simp add: p)
  qed
qed

lemma keys_dict_set_new:
  "k \<notin> fst ` set d \<Longrightarrow> map fst (dict_set k v d) = map fst d @ [k]"
  by (induction d) auto

lemma map_of_dict_set: "map_of (dict_set k v d) = (map_of d)(k \<mapsto> v)"
  by (induction d) (auto simp: fun_upd_twist)

lemma dict_update_Cons:
  "dict_update d ((k, v) # ps) = dict_update (dict_set k v d) ps"
  by (simp add: dict_update_def)

lemma dict_update_Nil: "dict_update d [] = d"
  by (simp add: dict_update_def)

lemma keys_dict_update:
  "distinct (map fst ps) \<Longrightarrow>
     map fst (dict_update d ps)
       = map fst d @ filter (\<lambda>k. k \<notin> fst ` set d) (map fst ps)"
proof (induction ps arbitrary: d)
  case Nil
  show ?case by (simp add: dict_update_Nil)
next
  case (Cons p ps)
  obtain k v where p: "p = (k, v)" by (cases p)
  from Cons.prems p have d: "distinct (map fst ps)" and nk: "k \<notin> fst ` set ps" by simp_all
  note IH = Cons.IH[OF d, of "dict_set k v d"]
  show ?case
  proof (cases "k \<in> fst ` set d")
    case True
    have s: "fst ` set (dict_set k v d) = fst ` set d"
      using keys_dict_set_present[OF True, of v] by (metis list.set_map)
    show ?thesis
      unfolding p dict_update_Cons IH s keys_dict_set_present[OF True]
      using True by simp
  next
    case False
    have s: "fst ` set (dict_set k v d) = insert k (fst ` set d)"
    proof -
      have "set (map fst (dict_set k v d)) = set (map fst d @ [k])"
        by (simp only: keys_dict_set_new[OF False])
      then show ?thesis by simp
    qed
    have f: "filter (\<lambda>x. x \<notin> insert k (fst ` set d)) (map fst ps)
               = filter (\<lambda>x. x \<notin> fst ` set d) (map fst ps)"
      using nk by (intro filter_cong) auto
    show ?thesis
      unfolding p dict_update_Cons IH s keys_dict_set_new[OF False] f
      using False by simp
  qed
qed

lemma map_of_dict_update_out:
  "k \<notin> fst ` set ps \<Longrightarrow> map_of (dict_update d ps) k = map_of d k"
proof (induction ps arbitrary: d)
  case Nil
  show ?case by (simp add: dict_update_Nil)
next
  case (Cons q qs)
  obtain a b where q: "q = (a, b)" by (cases q)
  from Cons.prems q have "a \<noteq> k" "k \<notin> fst ` set qs" by auto
  then show ?case unfolding q dict_update_Cons
    by (simp add: Cons.IH map_of_dict_set)
qed

lemma map_of_dict_update_in:
  "distinct (map fst ps) \<Longrightarrow> (k, v) \<in> set ps \<Longrightarrow> map_of (dict_update d ps) k = Some v"
proof (induction ps arbitrary: d)
  case Nil
  then show ?case by simp
next
  case (Cons p ps)
  obtain k' v' where p: "p = (k', v')" by (cases p)
  from Cons.prems p have d: "distinct (map fst ps)" and nk: "k' \<notin> fst ` set ps" by simp_all
  show ?case
  proof (cases "(k, v) \<in> set ps")
    case True
    then show ?thesis unfolding p dict_update_Cons by (rule Cons.IH[OF d])
  next
    case False
    with Cons.prems(2) p have e: "k' = k" "v' = v" by simp_all
    have "k \<notin> fst ` set ps" using nk e by simp
    then have "map_of (dict_update (dict_set k v d) ps) k = map_of (dict_set k v d) k"
      by (rule map_of_dict_update_out)
    then show ?thesis unfolding p dict_update_Cons e by (simp add: map_of_dict_set)
  qed
qed

lemma distinct_dict_set:
  "distinct (map fst d) \<Longrightarrow> distinct (map fst (dict_set k v d))"
proof (cases "k \<in> fst ` set d")
  case True
  assume "distinct (map fst d)"
  then show ?thesis by (simp only: keys_dict_set_present[OF True])
next
  case False
  assume "distinct (map fst d)"
  then show ?thesis using False by (simp add: keys_dict_set_new[OF False])
qed

lemma distinct_dict_update:
  "distinct (map fst d) \<Longrightarrow> distinct (map fst (dict_update d ps))"
proof (induction ps arbitrary: d)
  case Nil
  then show ?case by (simp add: dict_update_Nil)
next
  case (Cons p ps)
  obtain k v where p: "p = (k, v)" by (cases p)
  show ?case unfolding p dict_update_Cons
    by (rule Cons.IH) (rule distinct_dict_set[OF Cons.prems])
qed

lemma distinct_dict_of: "distinct (map fst (dict_of ps))"
  unfolding dict_of_def by (rule distinct_dict_update) simp

lemma distinct_parse_kv_text: "distinct (map fst (parse_kv_text loads v))"
  by (simp add: parse_kv_text_def parse_kv_str_def Let_def distinct_dict_of
           split: option.splits)

lemma process_row_query:
  assumes "process_row ov l cols t st row = Inr (st', Some (fname, it))"
  shows "req_query it = merge_query (url_query (req_url it))
                          (parse_kv_text (lib_json_loads l) (get_cell row (idx_query_params cols)))"
  using assms
  by (auto simp: process_row_def Let_def split: if_splits option.splits)

section \<open>Merging the query parameters\<close>

text \<open>
  C5, as the program does it. The merged query of a request is the mapping that
  \<open>dict(parse_qsl(...))\<close> reads from the query string of its URL, overlaid by the row's query
  parameters: the keys of that mapping keep their places, the keys that are new come after
  them in the row's order, a key of the row has the row's value, and any other key keeps the
  value it has in the mapping. Existing query \<open>a=1\<close> merged with the row parameters
  \<open>{a: 2, b: 3}\<close> is serialised as \<open>a=2&b=3\<close>.
\<close>

theorem query_merge_overlay:
  assumes "distinct (map fst query_params)"
  shows "map fst (merge_query existing query_params)
           = map fst (dict_of (parse_qsl existing))
             @ filter (\<lambda>k. k \<notin> fst ` set (dict_of (parse_qsl existing))) (map fst query_params)
       \<and> (\<forall>k v. (k, v) \<in> set query_params \<longrightarrow>
              dict_get (merge_query existing query_params) k = Some v)
       \<and> (\<forall>k. k \<notin> fst ` set query_params \<longrightarrow>
              dict_get (merge_query existing query_params) k
                = dict_get (dict_of (parse_qsl existing)) k)
       \<and> (\<forall>ov l cols t st row st' fname it.
              process_row ov l cols t st row = Inr (st', Some (fname, it)) \<longrightarrow>
              req_query it = merge_query (url_query (req_url it))
                               (parse_kv_text (lib_json_loads l) (get_cell row (idx_query_params cols))))
       \<and> merged_query_string (url_query ''http://api.test/items?a=1'') [(''a'', ''2''), (''b'', ''3'')]
           = ''a=2&b=3''"
proof -
  have a: "map fst (merge_query existing query_params)
           = map fst (dict_of (parse_qsl existing))
             @ filter (\<lambda>k. k \<notin> fst ` set (dict_of (parse_qsl existing))) (map fst query_params)"
    unfolding merge_query_def by (rule keys_dict_update[OF assms])
  have b: "dict_get (merge_query existing query_params) k = Some v"
    if "(k, v) \<in> set query_params" for k v
    unfolding merge_query_def dict_get_def by (rule map_of_dict_update_in[OF assms that])
  have c: "dict_get (merge_query existing query_params) k
             = dict_get (dict_of (parse_qsl existing)) k"
    if "k \<notin> fst ` set query_params" for k
    unfolding merge_query_def dict_get_def by (rule map_of_dict_update_out[OF that])
  have d: "req_query it = merge_query (url_query (req_url it))
                               (parse_kv_text (lib_json_loads l) (get_cell row (idx_query_params cols)))"
    if "process_row ov l cols t st row = Inr (st', Some (fname, it))"
    for ov l cols t st row st' fname it
    using that by (rule process_row_query)
  have e: "merged_query_string (url_query ''http://api.test/items?a=1'') [(''a'', ''2''), (''b'', ''3'')]
           = ''a=2&b=3''"
    by code_simp
  show ?thesis
    apply (intro conjI allI impI)
    subgoal by (rule a)
    subgoal by (rule b)
    subgoal by (rule c)
    subgoal by (rule d)
    subgoal by (rule e)
    done
qed

theorem query_merge_overlay_witness:
  "distinct (map fst [(''a'', ''2''), (''b'', ''3'')])
   \<and> map fst (merge_query ''a=1&c=9'' [(''a'', ''2''), (''b'', ''3'')]) = [''a'', ''c'', ''b'']
   \<and> dict_get (merge_query ''a=1&c=9'' [(''a'', ''2''), (''b'', ''3'')]) ''a'' = Some ''2''
   \<and> dict_get (merge_query ''a=1&c=9'' [(''a'', ''2''), (''b'', ''3'')]) ''c'' = Some ''9''"
proof -
  let ?r = "[(''a'', ''2''), (''b'', ''3'')] :: (string \<times> string) list"
  have h: "distinct (map fst ?r)" by simp
  note T = query_merge_overlay[OF h, of "''a=1&c=9''"]
  from T have "map fst (merge_query ''a=1&c=9'' ?r)
           = map fst (dict_of (parse_qsl ''a=1&c=9''))
             @ filter (\<lambda>k. k \<notin> fst ` set (dict_of (parse_qsl ''a=1&c=9''))) (map fst ?r)"
    by (rule conjunct1)
  also have "\<dots> = [''a'', ''c'', ''b'']" by code_simp
  finally have k: "map fst (merge_query ''a=1&c=9'' ?r) = [''a'', ''c'', ''b'']" .
  from T have all: "\<forall>k v. (k, v) \<in> set ?r \<longrightarrow> dict_get (merge_query ''a=1&c=9'' ?r) k = Some v"
    by (rule conjunct2[THEN conjunct1])
  have ma: "(''a'', ''2'') \<in> set ?r" by simp
  have va: "dict_get (merge_query ''a=1&c=9'' ?r) ''a'' = Some ''2''"
    by (rule all[rule_format, OF ma])
  from T have out: "\<forall>k. k \<notin> fst ` set ?r \<longrightarrow>
     dict_get (merge_query ''a=1&c=9'' ?r) k = dict_get (dict_of (parse_qsl ''a=1&c=9'')) k"
    by (rule conjunct2[THEN conjunct2, THEN conjunct1])
  have nc: "''c'' \<notin> fst ` set ?r" by simp
  have "dict_get (merge_query ''a=1&c=9'' ?r) ''c'' = dict_get (dict_of (parse_qsl ''a=1&c=9'')) ''c''"
    by (rule out[rule_format, OF nc])
  also have "\<dots> = Some ''9''" by code_simp
  finally have vc: "dict_get (merge_query ''a=1&c=9'' ?r) ''c'' = Some ''9''" .
  from h k va vc show ?thesis by (intro conjI)
qed

text \<open>
  C5 as stated says that the final query is the existing pairs overlaid by the row's pairs.
  The mapping read from the URL is not the list of its pairs: a pair with an empty value is
  dropped, and of a repeated key the last value is kept. The URL of row 2 of
  \<open>repeated_query_sheet\<close> carries \<open>flag=&a=1&a=5\<close> and the row adds \<open>b\<close>: the final query
  is \<open>a=5&b=3\<close>.
\<close>

theorem existing_pairs_dropped_counterexample:
  "url_query ''http://api.test/items?flag=&a=1&a=5'' = ''flag=&a=1&a=5''
   \<and> map_sum id (\<lambda>gs. map req_query (flat_requests (folders gs)))
       (compile_workbook None plain_library [repeated_query_sheet])
       = Inr [[(''a'', ''5''), (''b'', ''3'')]]
   \<and> merged_query_string ''flag=&a=1&a=5'' [(''b'', ''3'')] = ''a=5&b=3''"
  by code_simp

section \<open>Facts about the processing of a row\<close>













section \<open>Carry-forward of the sticky fields\<close>











section \<open>Resolution of the request URL\<close>




section \<open>Facts about reconciling against no executions\<close>

lemma write_rows_exhausted:
  "exec_iter st = [] \<Longrightarrow> write_rows t links a s i rows st = st"
  by (induction rows) simp_all

lemma reconcile_sheet_exhausted:
  assumes "rs_exec_iter st = []"
  shows "reconcile_sheet links sh st
           = st\<lparr>done_sheets := done_sheets st
                    @ [if visible sh then sh\<lparr>cells := fst (placed sh)\<rparr> else sh]\<rparr>"
proof (cases "visible sh")
  case False
  then show ?thesis by (simp add: reconcile_sheet_def)
next
  case True
  obtain g a s where p: "place_columns (cells sh) (expected_column (cells sh)) = (g, a, s)"
    by (cases "place_columns (cells sh) (expected_column (cells sh))") auto
  have w: "write_rows (title sh) links a s (id_column (cells sh)) rows
             \<lparr>ls_grid = g, exec_iter = [], failed_test_case_ids = rs_failed st,
              written = rs_written st\<rparr>
           = \<lparr>ls_grid = g, exec_iter = [], failed_test_case_ids = rs_failed st,
              written = rs_written st\<rparr>" for rows
    by (rule write_rows_exhausted) simp
  have "reconcile_sheet links sh st
          = \<lparr>done_sheets = done_sheets st @ [sh\<lparr>cells := g\<rparr>], rs_exec_iter = [],
             rs_failed = rs_failed st, rs_written = rs_written st\<rparr>"
    using True assms by (simp add: reconcile_sheet_def Let_def p w del: upt_Suc)
  also have "\<dots> = st\<lparr>done_sheets := done_sheets st
                    @ [if visible sh then sh\<lparr>cells := fst (placed sh)\<rparr> else sh]\<rparr>"
    using True assms by (cases st) (simp add: placed_def p)
  finally show ?thesis .
qed

lemma reconcile_fold_exhausted:
  assumes "rs_exec_iter st = []"
  shows "foldl (\<lambda>st sh. reconcile_sheet links sh st) st wb
           = st\<lparr>done_sheets := done_sheets st
                    @ map (\<lambda>sh. if visible sh then sh\<lparr>cells := fst (placed sh)\<rparr> else sh) wb\<rparr>"
  using assms
proof (induction wb arbitrary: st)
  case Nil
  show ?case by simp
next
  case (Cons sh wb)
  let ?st = "st\<lparr>done_sheets := done_sheets st
                    @ [if visible sh then sh\<lparr>cells := fst (placed sh)\<rparr> else sh]\<rparr>"
  have e: "rs_exec_iter ?st = []" using Cons.prems by simp
  show ?case
    by (simp add: reconcile_sheet_exhausted[OF Cons.prems] Cons.IH[OF e])
qed

lemma reconcile_no_executions:
  "reconcile wb links []
     = \<lparr>done_sheets = map (\<lambda>sh. if visible sh then sh\<lparr>cells := fst (placed sh)\<rparr> else sh) wb,
        rs_exec_iter = [], rs_failed = [], rs_written = []\<rparr>"
  unfolding reconcile_def by (subst reconcile_fold_exhausted) simp_all

section \<open>A failed run of the external runner\<close>

text \<open>
  C9, as the program does it, for a workbook that compiles. When the runner exits non-zero
  and its JSON artifact does not exist, \<open>run_newman_and_generate_report\<close> writes no report of its own and returns an empty
  execution list; the generator goes on with that list and saves the results copy of the
  workbook: every visible sheet with its result columns placed, no row annotated and no
  failure identifier recorded. When the artifact exists the exit code is not looked at: the
  rows are reconciled against the executions it holds and the results copy is saved.
\<close>

theorem runner_failure:
  assumes compiled: "compile_workbook ov l wb = Inr gs"
  shows "(returncode outcome \<noteq> 0 \<and> results_json outcome = None \<longrightarrow>
      run_newman_and_generate_report outcome report_excel_name
        = Inr \<lparr>report_name = None, executions = [], report_written = False\<rparr>
    \<and> generate_postman_collection_from_excel ov l wb outcome
        = Inr \<lparr>collection = folders gs,
               results_workbook
                 = map (\<lambda>sh. if visible sh then sh\<lparr>cells := fst (placed sh)\<rparr> else sh) wb,
               failed_ids = [], rows_written = []\<rparr>)
   \<and> (results_json outcome = Some es \<longrightarrow>
      generate_postman_collection_from_excel ov l wb outcome
        = Inr \<lparr>collection = folders gs,
               results_workbook = done_sheets (reconcile wb (row_links gs) es),
               failed_ids = rs_failed (reconcile wb (row_links gs) es),
               rows_written = rs_written (reconcile wb (row_links gs) es)\<rparr>)
   \<and> (returncode outcome = 0 \<and> results_json outcome = None \<longrightarrow>
      generate_postman_collection_from_excel ov l wb outcome = Inl FileNotFoundError)"
proof -
  have a: "run_newman_and_generate_report outcome report_excel_name
             = Inr \<lparr>report_name = None, executions = [], report_written = False\<rparr>
    \<and> generate_postman_collection_from_excel ov l wb outcome
        = Inr \<lparr>collection = folders gs,
               results_workbook
                 = map (\<lambda>sh. if visible sh then sh\<lparr>cells := fst (placed sh)\<rparr> else sh) wb,
               failed_ids = [], rows_written = []\<rparr>"
    if "returncode outcome \<noteq> 0 \<and> results_json outcome = None"
    using that
    by (simp add: run_newman_and_generate_report_def generate_postman_collection_from_excel_def
          compiled Let_def reconcile_no_executions)
  have b: "generate_postman_collection_from_excel ov l wb outcome
        = Inr \<lparr>collection = folders gs,
               results_workbook = done_sheets (reconcile wb (row_links gs) es),
               failed_ids = rs_failed (reconcile wb (row_links gs) es),
               rows_written = rs_written (reconcile wb (row_links gs) es)\<rparr>"
    if "results_json outcome = Some es"
    using that
    by (simp add: run_newman_and_generate_report_def generate_postman_collection_from_excel_def
          compiled Let_def)
  have c: "generate_postman_collection_from_excel ov l wb outcome = Inl FileNotFoundError"
    if "returncode outcome = 0 \<and> results_json outcome = None"
    using that
    by (simp add: run_newman_and_generate_report_def generate_postman_collection_from_excel_def
          compiled Let_def)
  show ?thesis by (rule conjI[OF impI[OF a] conjI[OF impI[OF b] impI[OF c]]])
qed

theorem runner_failure_witness:
  "\<not> isl (compile_workbook None plain_library [users_sheet])
   \<and> returncode \<lparr>returncode = 1, results_json = None\<rparr> \<noteq> 0
   \<and> results_json \<lparr>returncode = 1, results_json = (None :: execution list option)\<rparr> = None
   \<and> saved_headers (generate_postman_collection_from_excel None plain_library [users_sheet]
        \<lparr>returncode = 1, results_json = None\<rparr>)
       = [[CStr ''Name'', CStr ''URL'', CStr ''ExpectedStatus'', CStr ''ActualStatus'',
           CStr ''Status'', CStr ''ID'']]
   \<and> results_json \<lparr>returncode = 1, results_json = Some [failing_execution]\<rparr>
       = Some [failing_execution]
   \<and> generate_postman_collection_from_excel None plain_library [users_sheet]
        \<lparr>returncode = 1, results_json = Some [failing_execution]\<rparr>
       = generate_postman_collection_from_excel None plain_library [users_sheet]
        \<lparr>returncode = 0, results_json = Some [failing_execution]\<rparr>
   \<and> returncode \<lparr>returncode = 0, results_json = (None :: execution list option)\<rparr> = 0
   \<and> generate_postman_collection_from_excel None plain_library [users_sheet]
        \<lparr>returncode = 0, results_json = None\<rparr> = Inl FileNotFoundError"
proof -
  let ?bad = "\<lparr>returncode = 1, results_json = (None :: execution list option)\<rparr>"
  let ?r1 = "\<lparr>returncode = 1, results_json = Some [failing_execution]\<rparr>"
  let ?r0 = "\<lparr>returncode = 0, results_json = Some [failing_execution]\<rparr>"
  let ?miss = "\<lparr>returncode = 0, results_json = (None :: execution list option)\<rparr>"
  let ?G = "generate_postman_collection_from_excel None plain_library [users_sheet]"
  have ok: "\<not> isl (compile_workbook None plain_library [users_sheet])" by code_simp
  then obtain gs where gs: "compile_workbook None plain_library [users_sheet] = Inr gs"
    by (cases "compile_workbook None plain_library [users_sheet]") auto
  have h1: "returncode ?bad \<noteq> 0" and h2: "results_json ?bad = None" by simp_all
  have "?G ?bad
          = Inr \<lparr>collection = folders gs,
               results_workbook
                 = map (\<lambda>sh. if visible sh then sh\<lparr>cells := fst (placed sh)\<rparr> else sh) [users_sheet],
               failed_ids = [], rows_written = []\<rparr>"
    by (rule conjunct2[OF mp[OF conjunct1[OF runner_failure[OF gs, where outcome = ?bad]]
          conjI[OF h1 h2]]])
  then have "saved_headers (?G ?bad)
          = map (\<lambda>sh. header_values (cells sh))
              (map (\<lambda>sh. if visible sh then sh\<lparr>cells := fst (placed sh)\<rparr> else sh) [users_sheet])"
    by (simp add: saved_headers_def)
  also have "\<dots> = [[CStr ''Name'', CStr ''URL'', CStr ''ExpectedStatus'', CStr ''ActualStatus'',
           CStr ''Status'', CStr ''ID'']]"
    by code_simp
  finally have w1: "saved_headers (?G ?bad)
       = [[CStr ''Name'', CStr ''URL'', CStr ''ExpectedStatus'', CStr ''ActualStatus'',
           CStr ''Status'', CStr ''ID'']]" .
  have h3: "results_json ?r1 = Some [failing_execution]" by simp
  have h4: "results_json ?r0 = Some [failing_execution]" by simp
  have "?G ?r1
          = Inr \<lparr>collection = folders gs,
               results_workbook = done_sheets (reconcile [users_sheet] (row_links gs) [failing_execution]),
               failed_ids = rs_failed (reconcile [users_sheet] (row_links gs) [failing_execution]),
               rows_written = rs_written (reconcile [users_sheet] (row_links gs) [failing_execution])\<rparr>"
    by (rule mp[OF conjunct1[OF conjunct2[OF runner_failure[OF gs, where outcome = ?r1]]] h3])
  also have "\<dots> = ?G ?r0"
    by (rule mp[OF conjunct1[OF conjunct2[OF runner_failure[OF gs, where outcome = ?r0]]] h4,
          symmetric])
  finally have w2: "?G ?r1 = ?G ?r0" .
  have h5: "returncode ?miss = 0" and h6: "results_json ?miss = None" by simp_all
  have w3: "?G ?miss = Inl FileNotFoundError"
    by (rule mp[OF conjunct2[OF conjunct2[OF runner_failure[OF gs, where outcome = ?miss]]]
          conjI[OF h5 h6]])
  show ?thesis
    by (rule conjI[OF ok conjI[OF h1 conjI[OF h2 conjI[OF w1 conjI[OF h3 conjI[OF w2
          conjI[OF h5 w3]]]]]]])
qed

text \<open>
  C9 as stated says that no results report is generated when the runner exits non-zero
  without its artifact. On \<open>users_sheet\<close> such a run returns normally and its saved results
  workbook has the two result columns in its header row.
\<close>

theorem results_saved_without_artifact_counterexample:
  "saved_headers (generate_postman_collection_from_excel None plain_library [users_sheet]
        \<lparr>returncode = 1, results_json = None\<rparr>)
     = [[CStr ''Name'', CStr ''URL'', CStr ''ExpectedStatus'', CStr ''ActualStatus'',
         CStr ''Status'', CStr ''ID'']]
   \<and> saved_headers (Inl FileNotFoundError) = []"
  by code_simp

end
